theory Spec2Isabelle
  imports Main "HOL-Library.Log_Nat" "HOL-Library.Multiset"
begin

section \<open>Python values used by the automation engine\<close>

text \<open>
  Exceptions are values: a call either raises (\<open>Inl\<close>) or returns (\<open>Inr\<close>).
  Only the exceptions the modelled code can raise are listed.
\<close>

datatype py_error =
  RuntimeError | FileNotFoundError | KeyError | ZeroDivisionError | ValueError | OverflowError
  | CvError \<comment> \<open>\<open>cv2.error\<close>\<close>

type_synonym 'a outcome = "py_error + 'a"

text \<open>
  \<open>bytes\<close> objects are lists of 8-bit characters; \<open>b"IEND"\<close> is \<open>''IEND''\<close>.
\<close>

type_synonym bytes = "char list"

subsection \<open>Floats\<close>

text \<open>
  A Python float is an IEEE-754 binary64 number. A finite float is modelled by the
  rational number it denotes; every arithmetic operation computes the exact result and
  rounds it to the nearest representable value, ties to even (\<open>fl\<close>). A decimal
  literal such as \<open>0.85\<close> denotes \<open>fl (85 / 100)\<close>. Subnormal values round on
  the fixed grid \<open>2 powi - 1074\<close>. Comparison of two floats is comparison of their
  values.

  \<open>fl\<close> rounds with an unbounded exponent. A result whose rounded magnitude reaches
  \<open>2 ^ 1024\<close> is beyond the largest float: multiplication and division then return an
  infinity, which Python passes on silently, and the conversion of an int to float
  raises \<open>OverflowError\<close>. In the code every product and quotient goes straight into
  \<open>int(...)\<close>, and \<open>int\<close> of an infinity raises \<open>OverflowError\<close>; no infinity
  is ever stored, so the float values of the model are the finite ones. A scale, a
  threshold or a confidence that is itself an infinity or a NaN is not represented.
\<close>

type_synonym pyfloat = rat

definition ilog2 :: "rat \<Rightarrow> int" where
  \<comment> \<open>\<open>\<lfloor>log 2 x\<rfloor>\<close> for \<open>0 < x\<close>, from the bit lengths of numerator and denominator\<close>
  "ilog2 x = (let (p, q) = quotient_of x; k = bitlen p - bitlen q
              in if x < 2 powi k then k - 1 else k)"

definition round_half_even :: "rat \<Rightarrow> int" where
  "round_half_even q =
     (let f = \<lfloor>q\<rfloor>; d = q - of_int f
      in if d < 1 / 2 then f else if 1 / 2 < d then f + 1 else if even f then f else f + 1)"

definition fl :: "rat \<Rightarrow> pyfloat" where
  \<comment> \<open>round to 53 significant bits\<close>
  "fl x = (if x = 0 then 0
           else let e = max (ilog2 \<bar>x\<bar> - 52) (- 1074)
                in of_int (round_half_even (x / 2 powi e)) * 2 powi e)"

definition py_int :: "pyfloat \<Rightarrow> int" where
  \<comment> \<open>\<open>int(x)\<close> truncates toward zero\<close>
  "py_int x = (if 0 \<le> x then \<lfloor>x\<rfloor> else \<lceil>x\<rceil>)"

definition int_times_float :: "int \<Rightarrow> pyfloat \<Rightarrow> pyfloat" where
  \<comment> \<open>\<open>n * x\<close> with \<open>n\<close> a pixel count and \<open>x\<close> a screen fraction: \<open>n\<close> is converted
      to float, then multiplied; the range of the result is not checked\<close>
  "int_times_float n x = fl (fl (of_int n) * x)"

text \<open>
  The matcher multiplies and divides by scale factors the caller chooses, so there
  the range is checked. \<open>float_of_int\<close> is the conversion of the int operand of a
  mixed operation; \<open>int_of_float y\<close> is \<open>int(...)\<close> of an operation whose rounded
  result is \<open>y\<close>; \<open>int_of_product n x\<close> is \<open>int(n * x)\<close> and
  \<open>int_of_quotient n x\<close> is \<open>int(n / x)\<close>. Both operands are converted before the
  divisor is tested.
\<close>

definition float_of_int :: "int \<Rightarrow> pyfloat outcome" where
  "float_of_int n = (let a = fl (of_int n) in if 2 ^ 1024 \<le> \<bar>a\<bar> then Inl OverflowError else Inr a)"

definition int_of_float :: "pyfloat \<Rightarrow> int outcome" where
  "int_of_float y = (if 2 ^ 1024 \<le> \<bar>y\<bar> then Inl OverflowError else Inr (py_int y))"

definition int_of_product :: "int \<Rightarrow> pyfloat \<Rightarrow> int outcome" where
  "int_of_product n x =
     (case float_of_int n of
        Inl e \<Rightarrow> Inl e
      | Inr a \<Rightarrow> int_of_float (fl (a * x)))"

definition int_of_quotient :: "int \<Rightarrow> pyfloat \<Rightarrow> int outcome" where
  "int_of_quotient n x =
     (case float_of_int n of
        Inl e \<Rightarrow> Inl e
      | Inr a \<Rightarrow> if x = 0 then Inl ZeroDivisionError else int_of_float (fl (a / x)))"

subsection \<open>Formatting integers\<close>

definition digit_char :: "nat \<Rightarrow> char" where
  "digit_char d = char_of (48 + d)"

fun str_nat :: "nat \<Rightarrow> string" where
  "str_nat n = (if n < 10 then [digit_char n] else str_nat (n div 10) @ [digit_char (n mod 10)])"

declare str_nat.simps [simp del]

definition str_int :: "int \<Rightarrow> string" where
  \<comment> \<open>what an f-string inserts for an int\<close>
  "str_int i = (if i < 0 then CHR ''-'' # str_nat (nat (- i)) else str_nat (nat i))"

section \<open>io_fast.py\<close>

subsection \<open>ShellSession\<close>

text \<open>
  The session owns the stdin of one \<open>adb shell\<close> process. Nothing is ever read back,
  so its state is the list of lines written so far. \<open>send\<close> appends one line.
\<close>

type_synonym shell = "string list"

definition send :: "string \<Rightarrow> shell \<Rightarrow> shell" where
  "send cmd sh = sh @ [cmd @ [CHR 0x0A]]"

definition tap :: "int \<Rightarrow> int \<Rightarrow> shell \<Rightarrow> shell" where
  "tap x y = send (''input tap '' @ str_int x @ '' '' @ str_int y)"

definition swipe :: "int \<Rightarrow> int \<Rightarrow> int \<Rightarrow> int \<Rightarrow> int \<Rightarrow> shell \<Rightarrow> shell" where
  "swipe x1 y1 x2 y2 dur_ms =
     send (''input swipe '' @ str_int x1 @ '' '' @ str_int y1 @ '' '' @ str_int x2 @ '' ''
           @ str_int y2 @ '' '' @ str_int dur_ms)"

definition key :: "string \<Rightarrow> shell \<Rightarrow> shell" where
  "key keycode = send (''input keyevent '' @ keycode)"

subsection \<open>PngStream\<close>

text \<open>
  The stream is the stdout pipe of the capture process. Its state is the bytes not yet
  read; the end of the list is the end of the stream (the producer has exited).
  \<open>read n\<close> on the buffered pipe blocks until \<open>n\<close> bytes have arrived or the stream
  ends, so it returns fewer than \<open>n\<close> bytes only at the end, and \<open>b""\<close> once the
  stream is exhausted or when \<open>n = 0\<close>. The pipe always exists
  (\<open>stdout=subprocess.PIPE\<close>), so the \<open>out is None\<close> exit is never taken.
\<close>

definition read :: "nat \<Rightarrow> bytes \<Rightarrow> bytes \<times> bytes" where
  "read n s = (take n s, drop n s)"

definition from_bytes_big :: "bytes \<Rightarrow> nat" where
  \<comment> \<open>\<open>int.from_bytes(bs, "big")\<close>\<close>
  "from_bytes_big bs = foldl (\<lambda>acc b. acc * 256 + of_char b) 0 bs"

definition PNG_SIG :: bytes where
  \<comment> \<open>\<open>b"\x89PNG\r\n\x1a\n"\<close>\<close>
  "PNG_SIG = [CHR 0x89, CHR ''P'', CHR ''N'', CHR ''G'', CHR 0x0D, CHR 0x0A, CHR 0x1A, CHR 0x0A]"

text \<open>
  The \<open>while True\<close> loop of \<open>next_png\<close>, with the buffer \<open>buf\<close> as accumulator.
  An empty value is falsy in Python, so \<open>not data\<close> is \<open>data = []\<close>.
  The loop ends on every finite stream: an iteration that goes on has read at least
  one byte.
\<close>

function read_chunks :: "bytes \<Rightarrow> bytes \<Rightarrow> bytes option \<times> bytes" where
  "read_chunks buf s =
     (let (raw_len, s1) = read 4 s in
      if raw_len = [] then (None, s1)
      else
        let length = from_bytes_big raw_len;
            (ctype, s2) = read 4 s1;
            (data, s3) = read length s2;
            (crc, s4) = read 4 s3
        in if ctype = [] \<or> data = [] \<or> crc = [] then (None, s4)
           else
             let buf' = buf @ raw_len @ ctype @ data @ crc
             in if ctype = ''IEND'' then (Some buf', s4) else read_chunks buf' s4)"
  by pat_completeness auto
termination
  by (relation "measure (\<lambda>(buf, s). length s)") (auto simp: read_def)

declare read_chunks.simps [simp del]

definition next_png :: "bytes \<Rightarrow> bytes option \<times> bytes" where
  "next_png s =
     (let (sig, s1) = read 8 s in
      if sig = [] then (None, s1)
      else if sig \<noteq> PNG_SIG then (None, s1)
      else read_chunks sig s1)"

subsection \<open>The libraries and the clock\<close>

text \<open>
  OpenCV, the file system and the time each blocking call takes are not part of the
  program. They are parameters: an image is a value of an arbitrary type \<open>'img\<close>,
  and each library function used is a field of \<open>env\<close>.
  \<^item> \<open>imdecode\<close>: \<open>cv2.imdecode(arr, cv2.IMREAD_COLOR)\<close>, \<open>None\<close> when the bytes
    are no image;
  \<^item> \<open>imread\<close>: \<open>cv2.imread(path, cv2.IMREAD_COLOR)\<close>, \<open>None\<close> when there is no
    such image file;
  \<^item> \<open>shape\<close>: \<open>img.shape[:2]\<close>, rows (height) first, then columns (width);
  \<^item> \<open>resize\<close> and \<open>matchTemplate\<close> (with \<open>TM_CCOEFF_NORMED\<close>), which raise
    when OpenCV rejects their arguments: a size it cannot allocate, a template larger
    than the image (\<open>cv2.error\<close>);
  \<^item> \<open>minMaxLoc\<close>, of which only the maximum and its location \<open>(x, y)\<close> are used;
  \<^item> \<open>pull_secs\<close>: the seconds one call of \<open>next_png\<close> takes (it blocks on the pipe);
  \<^item> \<open>match_secs\<close>: the seconds one call of \<open>find_locator\<close> takes.
\<close>

datatype interpolation = INTER_AREA | INTER_LINEAR

record 'img env =
  imdecode :: "bytes \<Rightarrow> 'img option"
  imread :: "string \<Rightarrow> 'img option"
  shape :: "'img \<Rightarrow> int \<times> int"
  resize :: "'img \<Rightarrow> int \<times> int \<Rightarrow> interpolation \<Rightarrow> 'img outcome"
  matchTemplate :: "'img \<Rightarrow> 'img \<Rightarrow> 'img outcome"
  minMaxLoc :: "'img \<Rightarrow> rat \<times> (int \<times> int)"
  pull_secs :: rat
  match_secs :: rat

definition decode_png :: "'img env \<Rightarrow> bytes \<Rightarrow> 'img outcome" where
  "decode_png cv png_bytes =
     (case imdecode cv png_bytes of
        None \<Rightarrow> Inl RuntimeError
      | Some img \<Rightarrow> Inr img)"

section \<open>pogo_config.py\<close>

text \<open>
  Of \<open>UiPack\<close> only the fields the modelled functions read are kept: the asset
  directory and the named swipes. The locator groups, the waits and the signature
  rectangles are plain data passed by the callers. The field names \<open>file\<close> and
  \<open>end\<close> are keywords of the theory language and carry a prime here.
\<close>

record Locator =
  file' :: string
  thresh :: pyfloat

record Swipe =
  start :: "pyfloat \<times> pyfloat"
  end' :: "pyfloat \<times> pyfloat"
  duration_ms :: int

record UiPack =
  asset_dir :: string
  swipes :: "string \<rightharpoonup> Swipe"

text \<open>
  The swipes of \<open>default_pack\<close>:
  \<open>"next_pokemon": Swipe(start=(0.85, 0.50), end=(0.20, 0.50), duration_ms=280)\<close>.
\<close>

definition default_pack :: "string \<Rightarrow> UiPack" where
  "default_pack dir = \<lparr> asset_dir = dir,
     swipes = [''next_pokemon'' \<mapsto>
       \<lparr>start = (fl (85 / 100), fl (50 / 100)), end' = (fl (20 / 100), fl (50 / 100)),
        duration_ms = 280\<rparr>] \<rparr>"

section \<open>pogo_cv.py\<close>

definition path_join :: "string \<Rightarrow> string \<Rightarrow> string" where
  \<comment> \<open>\<open>os.path.join\<close> of two components on POSIX\<close>
  "path_join a b =
     (if b \<noteq> [] \<and> hd b = CHR ''/'' then b
      else if a = [] \<or> last a = CHR ''/'' then a @ b
      else a @ ''/'' @ b)"

definition tpl_path :: "UiPack \<Rightarrow> Locator \<Rightarrow> string" where
  "tpl_path cfg loc = path_join (asset_dir cfg) (file' loc)"

definition load_template :: "'img env \<Rightarrow> UiPack \<Rightarrow> Locator \<Rightarrow> 'img outcome" where
  "load_template cv cfg loc =
     (case imread cv (tpl_path cfg loc) of
        None \<Rightarrow> Inl FileNotFoundError
      | Some img \<Rightarrow> Inr img)"

text \<open>A match is the tuple \<open>(x, y, w, h, confidence)\<close>; \<open>best[-1]\<close> is its confidence.\<close>

type_synonym bbox = "int \<times> int \<times> int \<times> int \<times> pyfloat"

definition conf :: "bbox \<Rightarrow> pyfloat" where
  "conf b = (case b of (x, y, w, h, c) \<Rightarrow> c)"

definition scaled_size :: "'img env \<Rightarrow> 'img \<Rightarrow> pyfloat \<Rightarrow> (int \<times> int) outcome" where
  \<comment> \<open>\<open>(max(1,int(w*s)), max(1,int(h*s)))\<close>\<close>
  "scaled_size cv scr s =
     (let (h, w) = shape cv scr in
      (case int_of_product w s of Inl e \<Rightarrow> Inl e | Inr cols \<Rightarrow>
      (case int_of_product h s of Inl e \<Rightarrow> Inl e | Inr rows \<Rightarrow>
         Inr (max 1 cols, max 1 rows))))"

definition scaled_frame :: "'img env \<Rightarrow> 'img \<Rightarrow> pyfloat \<Rightarrow> 'img outcome" where
  \<comment> \<open>the \<open>cv2.resize\<close> call of one loop iteration\<close>
  "scaled_frame cv scr s =
     (case scaled_size cv scr s of
        Inl e \<Rightarrow> Inl e
      | Inr sz \<Rightarrow> resize cv scr sz (if s < 1 then INTER_AREA else INTER_LINEAR))"

definition scale_peak :: "'img env \<Rightarrow> 'img \<Rightarrow> 'img \<Rightarrow> pyfloat \<Rightarrow> (pyfloat \<times> (int \<times> int)) outcome" where
  \<comment> \<open>\<open>max_val\<close> and \<open>max_loc\<close> of one loop iteration\<close>
  "scale_peak cv scr tpl s =
     (case scaled_frame cv scr s of
        Inl e \<Rightarrow> Inl e
      | Inr rs \<Rightarrow>
          (case matchTemplate cv rs tpl of
             Inl e \<Rightarrow> Inl e
           | Inr res \<Rightarrow> Inr (minMaxLoc cv res)))"

definition unscaled_box :: "'img env \<Rightarrow> 'img \<Rightarrow> pyfloat \<Rightarrow> pyfloat \<times> (int \<times> int) \<Rightarrow> bbox outcome" where
  \<comment> \<open>the body of the \<open>if\<close>: the tuple stored in \<open>best\<close>\<close>
  "unscaled_box cv tpl s peak =
     (case peak of (max_val, (x, y)) \<Rightarrow>
        (let (th, tw) = shape cv tpl in
         (case int_of_quotient x s of Inl e \<Rightarrow> Inl e | Inr bx0 \<Rightarrow>
         (case int_of_quotient y s of Inl e \<Rightarrow> Inl e | Inr by0 \<Rightarrow>
         (case int_of_quotient tw s of Inl e \<Rightarrow> Inl e | Inr bw \<Rightarrow>
         (case int_of_quotient th s of Inl e \<Rightarrow> Inl e | Inr bh \<Rightarrow>
            Inr (bx0, by0, bw, bh, max_val)))))))"

text \<open>
  The \<open>for s in scales\<close> loop, with \<open>best\<close> as accumulator. An exception in an
  iteration ends the loop and the call.
\<close>

fun scan_scales :: "'img env \<Rightarrow> 'img \<Rightarrow> 'img \<Rightarrow> bbox option \<Rightarrow> pyfloat list \<Rightarrow> bbox option outcome" where
  "scan_scales cv scr tpl best [] = Inr best"
| "scan_scales cv scr tpl best (s # ss) =
     (case scale_peak cv scr tpl s of
        Inl e \<Rightarrow> Inl e
      | Inr peak \<Rightarrow>
          if (case best of None \<Rightarrow> True | Some b \<Rightarrow> conf b < fst peak)
          then (case unscaled_box cv tpl s peak of
                  Inl e \<Rightarrow> Inl e
                | Inr b \<Rightarrow> scan_scales cv scr tpl (Some b) ss)
          else scan_scales cv scr tpl best ss)"

definition default_scales :: "pyfloat list" where
  \<comment> \<open>\<open>(1.0, 0.9, 1.1, 0.8, 1.2)\<close>\<close>
  "default_scales = [1, fl (9 / 10), fl (11 / 10), fl (8 / 10), fl (12 / 10)]"

definition match_template :: "'img env \<Rightarrow> 'img \<Rightarrow> 'img \<Rightarrow> pyfloat \<Rightarrow> pyfloat list \<Rightarrow> bbox option outcome" where
  "match_template cv scr tpl thr scales =
     (case scan_scales cv scr tpl None scales of
        Inl e \<Rightarrow> Inl e
      | Inr best \<Rightarrow>
          (case best of
             None \<Rightarrow> Inr None
           | Some b \<Rightarrow> if thr \<le> conf b then Inr (Some b) else Inr None))"

definition find_locator :: "'img env \<Rightarrow> UiPack \<Rightarrow> Locator \<Rightarrow> 'img \<Rightarrow> bbox option outcome" where
  "find_locator cv cfg loc screen =
     (case load_template cv cfg loc of
        Inl e \<Rightarrow> Inl e
      | Inr tpl \<Rightarrow> match_template cv screen tpl (thresh loc) default_scales)"

definition center_of :: "bbox \<Rightarrow> int \<times> int" where
  "center_of b = (case b of (x, y, w, h, c) \<Rightarrow> (x + w div 2, y + h div 2))"

section \<open>pogo_ui.py\<close>

text \<open>
  The functions of this module act on three things outside themselves: the wall clock
  (\<open>time.time()\<close>, in seconds), the frame stream \<open>ps\<close> and the shell session
  \<open>sh\<close>. The state \<open>world\<close> holds them, and every function returns the state it
  leaves together with its outcome, also when it raises. The clock is an exact rational:
  the rounding of the float returned by \<open>time.time()\<close> is not modelled.
\<close>

record world =
  clock :: rat
  stream :: bytes
  sent :: shell

definition sleep :: "rat \<Rightarrow> world \<Rightarrow> unit outcome \<times> world" where
  \<comment> \<open>\<open>time.sleep(d)\<close> rejects a negative duration\<close>
  "sleep d w = (if d < 0 then (Inl ValueError, w) else (Inr (), w\<lparr>clock := clock w + d\<rparr>))"

definition pull :: "'img env \<Rightarrow> world \<Rightarrow> bytes option \<times> world" where
  \<comment> \<open>\<open>ps.next_png()\<close>: advances the stream and takes \<open>pull_secs\<close>\<close>
  "pull cv w =
     (case next_png (stream w) of
        (png, s') \<Rightarrow> (png, w\<lparr>clock := clock w + pull_secs cv, stream := s'\<rparr>))"

text \<open>
  \<open>_next_frame\<close> loops until a frame arrives, so it may never return: the result
  \<open>None\<close> of the model. \<open>decode_png\<close> either raises or returns an image, so the
  test \<open>img is not None\<close> holds whenever it is reached.
\<close>

partial_function (option) next_frame :: "'img env \<Rightarrow> world \<Rightarrow> ('img outcome \<times> world) option" where
  "next_frame cv w =
     (case pull cv w of
        (None, w1) \<Rightarrow> next_frame cv w1
      | (Some png, w1) \<Rightarrow>
          (case decode_png cv png of
             Inl e \<Rightarrow> Some (Inl e, w1)
           | Inr img \<Rightarrow> Some (Inr img, w1)))"

definition timed_find :: "'img env \<Rightarrow> UiPack \<Rightarrow> Locator \<Rightarrow> 'img \<Rightarrow> world \<Rightarrow> bbox option outcome \<times> world" where
  \<comment> \<open>\<open>find_locator\<close>, and the time it takes\<close>
  "timed_find cv cfg loc frame w =
     (find_locator cv cfg loc frame, w\<lparr>clock := clock w + match_secs cv\<rparr>)"

text \<open>
  The \<open>while\<close> loop of \<open>wait_and_find\<close>; \<open>t0\<close> is the clock when the function was
  entered. A hit is a non-empty tuple, hence truthy, so \<open>if hit\<close> is \<open>hit is not None\<close>.
\<close>

partial_function (option) wait_loop ::
  "'img env \<Rightarrow> UiPack \<Rightarrow> Locator \<Rightarrow> rat \<Rightarrow> rat \<Rightarrow> rat \<Rightarrow> world
     \<Rightarrow> ((bbox \<times> 'img) option outcome \<times> world) option" where
  "wait_loop cv cfg loc t0 timeout poll w =
     (if clock w - t0 < timeout then
        (case next_frame cv w of
           None \<Rightarrow> None
         | Some (Inl e, w1) \<Rightarrow> Some (Inl e, w1)
         | Some (Inr frame, w1) \<Rightarrow>
             (case timed_find cv cfg loc frame w1 of
                (Inl e, w2) \<Rightarrow> Some (Inl e, w2)
              | (Inr (Some hit), w2) \<Rightarrow> Some (Inr (Some (hit, frame)), w2)
              | (Inr None, w2) \<Rightarrow>
                  (case sleep poll w2 of
                     (Inl e, w3) \<Rightarrow> Some (Inl e, w3)
                   | (Inr u, w3) \<Rightarrow> wait_loop cv cfg loc t0 timeout poll w3)))
      else Some (Inr None, w))"

definition wait_and_find ::
  "'img env \<Rightarrow> UiPack \<Rightarrow> Locator \<Rightarrow> rat \<Rightarrow> rat \<Rightarrow> world
     \<Rightarrow> ((bbox \<times> 'img) option outcome \<times> world) option" where
  "wait_and_find cv cfg loc timeout poll w = wait_loop cv cfg loc (clock w) timeout poll w"

definition default_poll :: rat where
  \<comment> \<open>\<open>poll: float = 0.12\<close>\<close>
  "default_poll = 12 / 100"

definition tap_locator ::
  "'img env \<Rightarrow> UiPack \<Rightarrow> Locator \<Rightarrow> rat \<Rightarrow> world \<Rightarrow> (bool outcome \<times> world) option" where
  "tap_locator cv cfg loc wait_after w =
     (case wait_and_find cv cfg loc 3 default_poll w of
        None \<Rightarrow> None
      | Some (Inl e, w1) \<Rightarrow> Some (Inl e, w1)
      | Some (Inr None, w1) \<Rightarrow> Some (Inr False, w1)
      | Some (Inr (Some (hit, frame)), w1) \<Rightarrow>
          (case center_of hit of (x, y) \<Rightarrow>
             let w2 = w1\<lparr>sent := tap x y (sent w1)\<rparr>
             in if wait_after \<noteq> 0
                then (case sleep wait_after w2 of
                        (Inl e, w3) \<Rightarrow> Some (Inl e, w3)
                      | (Inr u, w3) \<Rightarrow> Some (Inr True, w3))
                else Some (Inr True, w2)))"

definition abs_points_from_swipe :: "'img env \<Rightarrow> 'img \<Rightarrow> Swipe \<Rightarrow> int \<times> int \<times> int \<times> int" where
  "abs_points_from_swipe cv frame sw =
     (let (H, W) = shape cv frame;
          sx = py_int (int_times_float W (fst (start sw)));
          sy = py_int (int_times_float H (snd (start sw)));
          ex = py_int (int_times_float W (fst (end' sw)));
          ey = py_int (int_times_float H (snd (end' sw)))
      in (sx, sy, ex, ey))"

definition swipe_by_name ::
  "'img env \<Rightarrow> UiPack \<Rightarrow> string \<Rightarrow> rat \<Rightarrow> world \<Rightarrow> (unit outcome \<times> world) option" where
  "swipe_by_name cv cfg k wait_after w =
     (case next_frame cv w of
        None \<Rightarrow> None
      | Some (Inl e, w1) \<Rightarrow> Some (Inl e, w1)
      | Some (Inr frame, w1) \<Rightarrow>
          (case swipes cfg k of
             None \<Rightarrow> Some (Inl KeyError, w1)
           | Some sw \<Rightarrow>
               (case abs_points_from_swipe cv frame sw of (sx, sy, ex, ey) \<Rightarrow>
                  let w2 = w1\<lparr>sent := swipe sx sy ex ey (duration_ms sw) (sent w1)\<rparr>
                  in if wait_after \<noteq> 0 then Some (sleep wait_after w2) else Some (Inr (), w2))))"

section \<open>Notions used in the statements\<close>

text \<open>
  A frame source that keeps producing: each of the next \<open>n\<close> calls of \<open>next_png\<close>
  returns a record that decodes to a frame in which the locator is not found.
\<close>

fun steady_frames :: "'img env \<Rightarrow> UiPack \<Rightarrow> Locator \<Rightarrow> nat \<Rightarrow> bytes \<Rightarrow> bool" where
  "steady_frames cv cfg loc 0 s = True"
| "steady_frames cv cfg loc (Suc n) s =
     (case next_png s of
        (None, s') \<Rightarrow> False
      | (Some png, s') \<Rightarrow>
          (case imdecode cv png of
             None \<Rightarrow> False
           | Some img \<Rightarrow> find_locator cv cfg loc img = Inr None \<and> steady_frames cv cfg loc n s'))"

section \<open>Concrete inputs\<close>

text \<open>
  \<open>png_1x1\<close> is a complete, valid PNG file of one red pixel: the signature, then the
  chunks \<open>IHDR\<close> (13 bytes), \<open>IDAT\<close> (12 bytes) and \<open>IEND\<close>, whose payload is
  empty as the PNG format requires, each with its CRC-32.
\<close>

definition png_1x1 :: bytes where
  "png_1x1 = PNG_SIG
     @ [CHR 0x00, CHR 0x00, CHR 0x00, CHR 0x0D] @ ''IHDR''
     @ [CHR 0x00, CHR 0x00, CHR 0x00, CHR 0x01, CHR 0x00, CHR 0x00, CHR 0x00, CHR 0x01,
        CHR 0x08, CHR 0x02, CHR 0x00, CHR 0x00, CHR 0x00]
     @ [CHR 0x90, CHR 0x77, CHR 0x53, CHR 0xDE]
     @ [CHR 0x00, CHR 0x00, CHR 0x00, CHR 0x0C] @ ''IDAT''
     @ [CHR 0x78, CHR 0x9C, CHR 0x63, CHR 0xF8, CHR 0xCF, CHR 0xC0, CHR 0x00, CHR 0x00,
        CHR 0x03, CHR 0x01, CHR 0x01, CHR 0x00]
     @ [CHR 0xC9, CHR 0xFE, CHR 0x92, CHR 0xEF]
     @ [CHR 0x00, CHR 0x00, CHR 0x00, CHR 0x00] @ ''IEND''
     @ [CHR 0xAE, CHR 0x42, CHR 0x60, CHR 0x82]"

text \<open>
  \<open>padded_record\<close> has the record structure with no empty payload: the signature and
  one \<open>IEND\<close> chunk carrying one byte. It is no image a PNG decoder accepts, but it is
  a record \<open>next_png\<close> returns.
\<close>

definition padded_record :: bytes where
  "padded_record = PNG_SIG
     @ [CHR 0x00, CHR 0x00, CHR 0x00, CHR 0x01] @ ''IEND'' @ [CHR 0x00]
     @ [CHR 0xD1, CHR 0x1A, CHR 0x4F, CHR 0xE1]"

text \<open>An environment in which no bytes decode to an image and no template file exists.\<close>

definition blind_env :: "unit env" where
  "blind_env = \<lparr> imdecode = (\<lambda>b. None), imread = (\<lambda>p. None), shape = (\<lambda>i. (0, 0)),
      resize = (\<lambda>i sz ip. Inr ()), matchTemplate = (\<lambda>a b. Inr ()),
      minMaxLoc = (\<lambda>r. (0, (0, 0))),
      pull_secs = 0, match_secs = 0 \<rparr>"

text \<open>
  In the next two environments an image is represented by its shape (rows, columns).
  \<open>toy_env c secs\<close>: every record decodes to a 1080 by 2400 screen, every template
  is 100 wide and 60 high, the best correlation is \<open>c\<close> at \<open>(500, 1000)\<close> whatever
  the scale, a pull takes \<open>secs\<close> seconds and matching takes none.
  \<open>screen_env\<close>: \<open>matchTemplate\<close> raises when the template is larger than the
  resized frame, and its result has one entry per position of the template. The
  template of 100 by 60 is found with confidence \<open>0.9\<close> at \<open>(500, 1000)\<close> in the
  screen as it is, and with \<open>0.5\<close> at \<open>(1000, 2000)\<close> in the screen at twice the
  size. A template of one pixel correlates fully with a frame of one pixel, at the
  only position \<open>(0, 0)\<close>. Nothing else correlates.
\<close>

definition toy_env :: "rat \<Rightarrow> rat \<Rightarrow> (int \<times> int) env" where
  "toy_env c secs = \<lparr> imdecode = (\<lambda>b. Some (2400, 1080)), imread = (\<lambda>p. Some (60, 100)),
      shape = (\<lambda>i. i), resize = (\<lambda>i sz ip. Inr (snd sz, fst sz)),
      matchTemplate = (\<lambda>a b. Inr a),
      minMaxLoc = (\<lambda>r. (c, (500, 1000))), pull_secs = secs, match_secs = 0 \<rparr>"

definition screen_env :: "(int \<times> int) env" where
  "screen_env = \<lparr> imdecode = (\<lambda>b. Some (2400, 1080)), imread = (\<lambda>p. Some (60, 100)),
      shape = (\<lambda>i. i), resize = (\<lambda>i sz ip. Inr (snd sz, fst sz)),
      matchTemplate = (\<lambda>a t. if fst a < fst t \<or> snd a < snd t then Inl CvError
                               else Inr (fst a - fst t + 1, snd a - snd t + 1)),
      minMaxLoc = (\<lambda>r. if r = (2341, 981) then (9 / 10, (500, 1000))
                        else if r = (4741, 2061) then (1 / 2, (1000, 2000))
                        else if r = (1, 1) then (1, (0, 0))
                        else (0, (0, 0))),
      pull_secs = 0, match_secs = 0 \<rparr>"

text \<open>
  What the loop sees in \<open>screen_env\<close> at the scales \<open>1.0\<close> and \<open>2.0\<close>, for the
  1080 by 2400 screen and the template of 100 by 60: the peak, and the tuple it stores.
\<close>

definition screen_peak :: "pyfloat \<Rightarrow> pyfloat \<times> (int \<times> int)" where
  "screen_peak s = (if s = 1 then (9 / 10, (500, 1000)) else (1 / 2, (1000, 2000)))"

definition screen_box :: "pyfloat \<Rightarrow> bbox" where
  "screen_box s = (if s = 1 then (500, 1000, 100, 60, 9 / 10) else (500, 1000, 50, 30, 1 / 2))"

definition demo_loc :: Locator where
  \<comment> \<open>a locator with the default threshold \<open>0.86\<close>\<close>
  "demo_loc = \<lparr> file' = ''main_menu.png'', thresh = fl (86 / 100) \<rparr>"

definition three_frames :: world where
  "three_frames = \<lparr> clock = 0, stream = padded_record @ padded_record @ padded_record, sent = [] \<rparr>"

definition two_left :: "rat \<Rightarrow> world" where
  \<comment> \<open>\<open>three_frames\<close> after one pull, at time \<open>t\<close>\<close>
  "two_left t = \<lparr> clock = t, stream = padded_record @ padded_record, sent = [] \<rparr>"

definition closed_stream :: world where
  "closed_stream = \<lparr> clock = 0, stream = [], sent = [] \<rparr>"

section \<open>Float arithmetic\<close>

lemma round_half_even_of_int: "round_half_even (of_int z) = z"
  by (simp add: round_half_even_def)

lemma ilog2_of_int_le:
  assumes "0 < a" "a < 2 ^ 53"
  shows "ilog2 (of_int a) \<le> 52"
proof -
  have "bitlen a \<le> 53" using assms by (simp add: bitlen_le_iff_power)
  moreover have "bitlen 1 = 1" by (simp add: bitlen_alt_def)
  ultimately show ?thesis by (simp add: ilog2_def Let_def)
qed

text \<open>Integers below \<open>2 ^ 53\<close> are floats: converting them rounds nothing.\<close>

lemma fl_of_int:
  assumes "\<bar>n\<bar> < 2 ^ 53"
  shows "fl (of_int n) = of_int n"
proof (cases "n = 0")
  case True
  then show ?thesis by (simp add: fl_def)
next
  case False
  define e where "e = max (ilog2 \<bar>of_int n\<bar> - 52) (- 1074)"
  have "ilog2 \<bar>of_int n :: rat\<bar> = ilog2 (of_int \<bar>n\<bar>)" by simp
  also have "\<dots> \<le> 52" using False assms by (intro ilog2_of_int_le) auto
  finally have e0: "e \<le> 0" by (simp add: e_def)
  define j where "j = nat (- e)"
  have pe: "(2::rat) powi e = 1 / 2 ^ j"
    using e0 by (simp add: j_def power_int_def field_simps)
  have "of_int n / (2::rat) powi e = of_int (n * 2 ^ j)" by (simp add: pe)
  then have "round_half_even (of_int n / 2 powi e) = n * 2 ^ j"
    by (simp only: round_half_even_of_int)
  then have "fl (of_int n) = of_int (n * 2 ^ j) * 2 powi e"
    using False by (simp add: fl_def e_def Let_def)
  also have "\<dots> = of_int n" by (simp add: pe)
  finally show ?thesis .
qed

lemma fl_numeral: "\<bar>numeral k :: int\<bar> < 2 ^ 53 \<Longrightarrow> fl (numeral k) = numeral k"
  using fl_of_int [of "numeral k"] by simp

lemma fl_one: "fl 1 = 1"
  using fl_of_int [of 1] by simp

lemma fl_zero: "fl 0 = 0"
  by (simp add: fl_def)

lemma fl_half: "fl (1 / 2) = 1 / 2"
  by code_simp

lemma floor_half: "\<lfloor>1 / 2 :: rat\<rfloor> = 0"
  by code_simp

lemma default_thresh_value: "fl (86 / 100) = 7746191359077253 / 9007199254740992"
  by code_simp

lemma px_085: "py_int (int_times_float 1080 (fl (85 / 100))) = 918"
  by code_simp

lemma px_050: "py_int (int_times_float 2400 (fl (50 / 100))) = 1200"
  by code_simp

lemma px_020: "py_int (int_times_float 1080 (fl (20 / 100))) = 216"
  by code_simp

text \<open>
  The checked conversions of the matcher: an int below \<open>2 ^ 53\<close> converts exactly, and
  a float whose integer part is that small is far from the largest float.
\<close>

lemma float_of_int_small:
  assumes "\<bar>n\<bar> < 2 ^ 53"
  shows "float_of_int n = Inr (of_int n)"
proof -
  have "\<bar>of_int n :: rat\<bar> < 2 ^ 53"
    using assms by (metis of_int_abs of_int_less_numeral_power_cancel_iff)
  also have "(2::rat) ^ 53 < 2 ^ 1024" by simp
  finally show ?thesis using assms by (simp add: float_of_int_def fl_of_int)
qed

lemma py_int_bound: "\<bar>y\<bar> < \<bar>of_int (py_int y)\<bar> + 1"
proof (cases "0 \<le> y")
  case True
  then have "0 \<le> \<lfloor>y\<rfloor>" by simp
  moreover have "y < of_int \<lfloor>y\<rfloor> + 1" by linarith
  ultimately show ?thesis using True by (simp add: py_int_def)
next
  case False
  then have "\<lceil>y\<rceil> \<le> 0" by simp
  moreover have "of_int \<lceil>y\<rceil> - 1 < y" by linarith
  ultimately show ?thesis using False by (simp add: py_int_def)
qed

lemma int_of_float_py_int:
  assumes "py_int y = k" "\<bar>k\<bar> < 2 ^ 53"
  shows "int_of_float y = Inr k"
proof -
  have "\<bar>of_int k :: rat\<bar> < 2 ^ 53"
    using assms(2) by (metis of_int_abs of_int_less_numeral_power_cancel_iff)
  with py_int_bound [of y] assms(1) have "\<bar>y\<bar> < 2 ^ 53 + 1" by simp
  also have "(2::rat) ^ 53 + 1 < 2 ^ 1024" by simp
  finally show ?thesis using assms(1) by (simp add: int_of_float_def)
qed

lemma int_of_product_value:
  assumes "\<bar>n\<bar> < 2 ^ 53" "py_int (fl (of_int n * x)) = k" "\<bar>k\<bar> < 2 ^ 53"
  shows "int_of_product n x = Inr k"
  using int_of_float_py_int [OF assms(2,3)] by (simp add: int_of_product_def float_of_int_small [OF assms(1)])

lemma int_of_quotient_value:
  assumes "\<bar>n\<bar> < 2 ^ 53" "x \<noteq> 0" "py_int (fl (of_int n / x)) = k" "\<bar>k\<bar> < 2 ^ 53"
  shows "int_of_quotient n x = Inr k"
  using int_of_float_py_int [OF assms(3,4)] assms(2)
  by (simp add: int_of_quotient_def float_of_int_small [OF assms(1)])

lemma int_of_quotient_zero: "\<bar>n\<bar> < 2 ^ 53 \<Longrightarrow> int_of_quotient n 0 = Inl ZeroDivisionError"
  by (simp add: int_of_quotient_def float_of_int_small)

text \<open>The pixel counts and box coordinates of the examples.\<close>

lemma whole_px:
  "int_of_product 1080 1 = Inr 1080" "int_of_product 2400 1 = Inr 2400"
  "int_of_product 1080 2 = Inr 2160" "int_of_product 2400 2 = Inr 4800"
  "int_of_product 1080 0 = Inr 0" "int_of_product 2400 0 = Inr 0"
  by (simp_all add: int_of_product_value fl_numeral fl_zero py_int_def)

lemma whole_box:
  "int_of_quotient 500 1 = Inr 500" "int_of_quotient 1000 1 = Inr 1000"
  "int_of_quotient 100 1 = Inr 100" "int_of_quotient 60 1 = Inr 60"
  "int_of_quotient 1000 2 = Inr 500" "int_of_quotient 2000 2 = Inr 1000"
  "int_of_quotient 100 2 = Inr 50" "int_of_quotient 60 2 = Inr 30"
  by (simp_all add: int_of_quotient_value fl_numeral py_int_def)

lemma px_09: "py_int (fl (1080 * fl (9 / 10))) = 972" "py_int (fl (2400 * fl (9 / 10))) = 2160"
  by code_simp+

lemma px_11: "py_int (fl (1080 * fl (11 / 10))) = 1188" "py_int (fl (2400 * fl (11 / 10))) = 2640"
  by code_simp+

lemma px_08: "py_int (fl (1080 * fl (8 / 10))) = 864" "py_int (fl (2400 * fl (8 / 10))) = 1920"
  by code_simp+

lemma px_12: "py_int (fl (1080 * fl (12 / 10))) = 1296" "py_int (fl (2400 * fl (12 / 10))) = 2880"
  by code_simp+

lemma str_int_values:
  "str_int 918 = ''918''" "str_int 1200 = ''1200''" "str_int 216 = ''216''"
  "str_int 280 = ''280''" "str_int 550 = ''550''" "str_int 1030 = ''1030''"
  by code_simp+

section \<open>Frame Transport\<close>

lemma next_png_padded_record: "next_png (padded_record @ s) = (Some padded_record, s)"
  by (simp add: next_png_def padded_record_def PNG_SIG_def read_def from_bytes_big_def
      read_chunks.simps)

text \<open>
  Claim C1: on a concatenation of complete, well-formed PNG records every call of
  \<open>next_png\<close> returns the next record's exact bytes. The code does not: the test
  \<open>not data\<close> takes the empty payload of a chunk of length 0 for a truncated read, and
  the terminal \<open>IEND\<close> chunk of a PNG file has length 0. On the stream that consists
  of the valid file \<open>png_1x1\<close> the call reads the whole record and returns \<open>None\<close>.
\<close>

theorem next_png_rejects_valid_png: "next_png png_1x1 = (None, [])"
  by (simp add: next_png_def png_1x1_def PNG_SIG_def read_def from_bytes_big_def
      read_chunks.simps)

text \<open>What \<open>next_png\<close> leaves on the stream is a suffix of what it found.\<close>

lemma read_drop: "read n s = (a, s') \<Longrightarrow> s' = drop n s"
  by (auto simp: read_def)

lemma read_chunks_unfold:
  assumes "read 4 s = (raw_len, s1)" "read 4 s1 = (ctype, s2)"
    "read (from_bytes_big raw_len) s2 = (data, s3)" "read 4 s3 = (crc, s4)"
  shows "read_chunks buf s =
     (if raw_len = [] then (None, s1)
      else if ctype = [] \<or> data = [] \<or> crc = [] then (None, s4)
      else if ctype = ''IEND'' then (Some (buf @ raw_len @ ctype @ data @ crc), s4)
      else read_chunks (buf @ raw_len @ ctype @ data @ crc) s4)"
  by (subst read_chunks.simps) (simp add: assms)

lemma read_chunks_drop: "\<exists>n. snd (read_chunks buf s) = drop n s"
proof (induction buf s rule: read_chunks.induct)
  case (1 buf s)
  obtain raw_len s1 where r1: "read 4 s = (raw_len, s1)" by force
  obtain ctype s2 where r2: "read 4 s1 = (ctype, s2)" by force
  obtain data s3 where r3: "read (from_bytes_big raw_len) s2 = (data, s3)" by force
  obtain crc s4 where r4: "read 4 s3 = (crc, s4)" by force
  have d1: "s1 = drop 4 s" using r1 by (rule read_drop)
  have d4: "s4 = drop (4 + from_bytes_big raw_len + 4 + 4) s"
    using read_drop [OF r2] read_drop [OF r3] read_drop [OF r4] d1
    by (simp add: add.commute add.left_commute)
  note unf = read_chunks_unfold [OF r1 r2 r3 r4, of buf]
  show ?case
  proof (cases "raw_len \<noteq> [] \<and> \<not> (ctype = [] \<or> data = [] \<or> crc = []) \<and> ctype \<noteq> ''IEND''")
    case True
    have "\<exists>n. snd (read_chunks (buf @ raw_len @ ctype @ data @ crc) s4) = drop n s4"
      using True r1 r2 r3 r4 by (intro "1.IH") auto
    then obtain n where "snd (read_chunks (buf @ raw_len @ ctype @ data @ crc) s4) = drop n s4" ..
    with True unf d4 show ?thesis by auto
  next
    case False
    with unf d1 d4 show ?thesis by auto
  qed
qed

lemma next_png_drop: "next_png s = (r, s') \<Longrightarrow> \<exists>n. s' = drop n s"
  using read_chunks_drop [of "take 8 s" "drop 8 s"]
  by (auto simp: next_png_def read_def Let_def split: if_splits)

lemma next_png_Some_consumes:
  assumes "next_png s = (Some png, s')"
  shows "\<exists>n. 0 < n \<and> n \<le> length s \<and> s' = drop n s"
proof -
  from assms have sig: "take 8 s = PNG_SIG"
    and rc: "read_chunks (take 8 s) (drop 8 s) = (Some png, s')"
    by (auto simp: next_png_def read_def Let_def split: if_splits)
  have "length (take 8 s) = 8" unfolding sig by (simp add: PNG_SIG_def)
  then have len: "8 \<le> length s" by simp
  from read_chunks_drop [of "take 8 s" "drop 8 s"] rc obtain m where m: "s' = drop (m + 8) s"
    by auto
  show ?thesis
  proof (cases "m + 8 \<le> length s")
    case True
    with m show ?thesis by (intro exI [of _ "m + 8"]) simp
  next
    case False
    with m len show ?thesis by (intro exI [of _ "length s"]) auto
  qed
qed

section \<open>Template Matcher\<close>

text \<open>The tuple stored for a scale carries the confidence of that scale's peak.\<close>

lemma unscaled_box_conf: "unscaled_box cv tpl s p = Inr b \<Longrightarrow> conf b = fst p"
  by (auto simp: unscaled_box_def conf_def Let_def split: prod.splits sum.splits)

lemma scan_scales_append:
  "scan_scales cv scr tpl best (xs @ ys) =
     (case scan_scales cv scr tpl best xs of
        Inl e \<Rightarrow> Inl e
      | Inr b \<Rightarrow> scan_scales cv scr tpl b ys)"
  by (induction xs arbitrary: best) (auto split: sum.splits)

text \<open>
  In the lemmas below \<open>peak s\<close> is the peak the loop finds at the scale \<open>s\<close>
  (\<open>max_val\<close> and \<open>max_loc\<close>) and \<open>box s\<close> the tuple it stores for it. A
  running best that no later scale beats is the result.
\<close>

lemma scan_scales_keeps:
  assumes "\<forall>t\<in>set ss. scale_peak cv scr tpl t = Inr (peak t) \<and> fst (peak t) \<le> conf b"
  shows "scan_scales cv scr tpl (Some b) ss = Inr (Some b)"
  using assms by (induction ss) auto

text \<open>
  The loop invariant: \<open>best\<close> is the start value, or the tuple of the first scale
  seen so far whose confidence is the largest seen so far.
\<close>

lemma scan_scales_running:
  assumes "\<forall>s\<in>set ss. scale_peak cv scr tpl s = Inr (peak s)"
    and "\<forall>s\<in>set ss. unscaled_box cv tpl s (peak s) = Inr (box s)"
  shows "(scan_scales cv scr tpl (Some b0) ss = Inr (Some b0) \<and> (\<forall>t\<in>set ss. fst (peak t) \<le> conf b0))
       \<or> (\<exists>pre s post. ss = pre @ s # post \<and>
            scan_scales cv scr tpl (Some b0) ss = Inr (Some (box s)) \<and>
            conf b0 < fst (peak s) \<and>
            (\<forall>t\<in>set pre. fst (peak t) < fst (peak s)) \<and>
            (\<forall>t\<in>set post. fst (peak t) \<le> fst (peak s)))"
  using assms
proof (induction ss arbitrary: b0)
  case Nil
  then show ?case by simp
next
  case (Cons s ss)
  then have pk: "scale_peak cv scr tpl s = Inr (peak s)"
    and bx: "unscaled_box cv tpl s (peak s) = Inr (box s)"
    and pks: "\<forall>s\<in>set ss. scale_peak cv scr tpl s = Inr (peak s)"
    and bxs: "\<forall>s\<in>set ss. unscaled_box cv tpl s (peak s) = Inr (box s)"
    by auto
  have cb: "conf (box s) = fst (peak s)" using bx by (rule unscaled_box_conf)
  show ?case
  proof (cases "conf b0 < fst (peak s)")
    case True
    then have step: "scan_scales cv scr tpl (Some b0) (s # ss) = scan_scales cv scr tpl (Some (box s)) ss"
      using pk bx by simp
    from Cons.IH [OF pks bxs, of "box s"] show ?thesis
    proof (elim disjE exE conjE)
      assume "scan_scales cv scr tpl (Some (box s)) ss = Inr (Some (box s))"
        and "\<forall>t\<in>set ss. fst (peak t) \<le> conf (box s)"
      with step True cb have "s # ss = [] @ s # ss \<and>
            scan_scales cv scr tpl (Some b0) (s # ss) = Inr (Some (box s)) \<and>
            conf b0 < fst (peak s) \<and>
            (\<forall>t\<in>set []. fst (peak t) < fst (peak s)) \<and>
            (\<forall>t\<in>set ss. fst (peak t) \<le> fst (peak s))" by simp
      then show ?thesis by blast
    next
      fix pre s' post
      assume "ss = pre @ s' # post"
        and "scan_scales cv scr tpl (Some (box s)) ss = Inr (Some (box s'))"
        and "conf (box s) < fst (peak s')"
        and "\<forall>t\<in>set pre. fst (peak t) < fst (peak s')"
        and "\<forall>t\<in>set post. fst (peak t) \<le> fst (peak s')"
      with step True cb have "s # ss = (s # pre) @ s' # post \<and>
            scan_scales cv scr tpl (Some b0) (s # ss) = Inr (Some (box s')) \<and>
            conf b0 < fst (peak s') \<and>
            (\<forall>t\<in>set (s # pre). fst (peak t) < fst (peak s')) \<and>
            (\<forall>t\<in>set post. fst (peak t) \<le> fst (peak s'))" by simp
      then show ?thesis by blast
    qed
  next
    case False
    then have step: "scan_scales cv scr tpl (Some b0) (s # ss) = scan_scales cv scr tpl (Some b0) ss"
      using pk by simp
    from Cons.IH [OF pks bxs, of b0] show ?thesis
    proof (elim disjE exE conjE)
      assume "scan_scales cv scr tpl (Some b0) ss = Inr (Some b0)"
        and "\<forall>t\<in>set ss. fst (peak t) \<le> conf b0"
      with step False show ?thesis by auto
    next
      fix pre s' post
      assume "ss = pre @ s' # post"
        and "scan_scales cv scr tpl (Some b0) ss = Inr (Some (box s'))"
        and "conf b0 < fst (peak s')"
        and "\<forall>t\<in>set pre. fst (peak t) < fst (peak s')"
        and "\<forall>t\<in>set post. fst (peak t) \<le> fst (peak s')"
      with step False have "s # ss = (s # pre) @ s' # post \<and>
            scan_scales cv scr tpl (Some b0) (s # ss) = Inr (Some (box s')) \<and>
            conf b0 < fst (peak s') \<and>
            (\<forall>t\<in>set (s # pre). fst (peak t) < fst (peak s')) \<and>
            (\<forall>t\<in>set post. fst (peak t) \<le> fst (peak s'))" by simp
      then show ?thesis by blast
    qed
  qed
qed

lemma scan_scales_first_best:
  assumes "ss \<noteq> []"
    and pks: "\<forall>s\<in>set ss. scale_peak cv scr tpl s = Inr (peak s)"
    and bxs: "\<forall>s\<in>set ss. unscaled_box cv tpl s (peak s) = Inr (box s)"
  shows "\<exists>pre s post. ss = pre @ s # post \<and>
            scan_scales cv scr tpl None ss = Inr (Some (box s)) \<and>
            (\<forall>t\<in>set pre. fst (peak t) < fst (peak s)) \<and>
            (\<forall>t\<in>set post. fst (peak t) \<le> fst (peak s))"
proof -
  from assms(1) obtain s rest where ss: "ss = s # rest" by (cases ss) auto
  with pks bxs have pk: "scale_peak cv scr tpl s = Inr (peak s)"
    and bx: "unscaled_box cv tpl s (peak s) = Inr (box s)"
    and pkr: "\<forall>s\<in>set rest. scale_peak cv scr tpl s = Inr (peak s)"
    and bxr: "\<forall>s\<in>set rest. unscaled_box cv tpl s (peak s) = Inr (box s)"
    by auto
  have cb: "conf (box s) = fst (peak s)" using bx by (rule unscaled_box_conf)
  have step: "scan_scales cv scr tpl None ss = scan_scales cv scr tpl (Some (box s)) rest"
    using ss pk bx by simp
  from scan_scales_running [OF pkr bxr, of "box s"] show ?thesis
  proof (elim disjE exE conjE)
    assume "scan_scales cv scr tpl (Some (box s)) rest = Inr (Some (box s))"
      and "\<forall>t\<in>set rest. fst (peak t) \<le> conf (box s)"
    with step ss cb have "ss = [] @ s # rest \<and>
            scan_scales cv scr tpl None ss = Inr (Some (box s)) \<and>
            (\<forall>t\<in>set []. fst (peak t) < fst (peak s)) \<and>
            (\<forall>t\<in>set rest. fst (peak t) \<le> fst (peak s))" by simp
    then show ?thesis by blast
  next
    fix pre s' post
    assume "rest = pre @ s' # post"
      and "scan_scales cv scr tpl (Some (box s)) rest = Inr (Some (box s'))"
      and "conf (box s) < fst (peak s')"
      and "\<forall>t\<in>set pre. fst (peak t) < fst (peak s')"
      and "\<forall>t\<in>set post. fst (peak t) \<le> fst (peak s')"
    with step ss cb have "ss = (s # pre) @ s' # post \<and>
            scan_scales cv scr tpl None ss = Inr (Some (box s')) \<and>
            (\<forall>t\<in>set (s # pre). fst (peak t) < fst (peak s')) \<and>
            (\<forall>t\<in>set post. fst (peak t) \<le> fst (peak s'))" by simp
    then show ?thesis by blast
  qed
qed

text \<open>
  The scales before the first largest confidence leave a running best below it, so the
  scale of the largest confidence is converted; what the conversion gives is the result.
\<close>

lemma scan_scales_before:
  assumes pks: "\<forall>s\<in>set pre. scale_peak cv scr tpl s = Inr (peak s)"
    and bxs: "\<forall>s\<in>set pre. \<exists>b. unscaled_box cv tpl s (peak s) = Inr b"
    and lt: "\<forall>t\<in>set pre. fst (peak t) < c"
  shows "\<exists>best. scan_scales cv scr tpl None pre = Inr best \<and>
           (case best of None \<Rightarrow> True | Some b \<Rightarrow> conf b < c)"
proof (cases "pre = []")
  case True
  then show ?thesis by simp
next
  case False
  from bchoice [OF bxs] obtain box where
    box: "\<forall>s\<in>set pre. unscaled_box cv tpl s (peak s) = Inr (box s)" ..
  from scan_scales_first_best [OF False pks box] obtain p s q where
    s: "pre = p @ s # q" "scan_scales cv scr tpl None pre = Inr (Some (box s))" by blast
  then have mem: "s \<in> set pre" by simp
  with box have "unscaled_box cv tpl s (peak s) = Inr (box s)" by simp
  then have "conf (box s) = fst (peak s)" by (rule unscaled_box_conf)
  with lt mem have "conf (box s) < c" by simp
  with s(2) show ?thesis by simp
qed

lemma scan_scales_top:
  assumes pks: "\<forall>s\<in>set ss. scale_peak cv scr tpl s = Inr (peak s)"
    and split: "ss = pre @ m # post"
    and lt: "\<forall>t\<in>set pre. fst (peak t) < fst (peak m)"
    and le: "\<forall>t\<in>set post. fst (peak t) \<le> fst (peak m)"
    and bxs: "\<forall>s\<in>set pre. \<exists>b. unscaled_box cv tpl s (peak s) = Inr b"
  shows "scan_scales cv scr tpl None ss =
     (case unscaled_box cv tpl m (peak m) of Inl e \<Rightarrow> Inl e | Inr b \<Rightarrow> Inr (Some b))"
proof -
  from pks split have pkp: "\<forall>s\<in>set pre. scale_peak cv scr tpl s = Inr (peak s)"
    and pkm: "scale_peak cv scr tpl m = Inr (peak m)"
    and pkq: "\<forall>s\<in>set post. scale_peak cv scr tpl s = Inr (peak s)" by auto
  from scan_scales_before [OF pkp bxs lt] obtain best where
    best: "scan_scales cv scr tpl None pre = Inr best"
      "case best of None \<Rightarrow> True | Some b \<Rightarrow> conf b < fst (peak m)" by blast
  have takes: "(case best of None \<Rightarrow> True | Some b \<Rightarrow> conf b < fst (peak m))" by (rule best(2))
  have "scan_scales cv scr tpl None ss = scan_scales cv scr tpl best (m # post)"
    by (simp add: split scan_scales_append best(1))
  also have "\<dots> = (case unscaled_box cv tpl m (peak m) of Inl e \<Rightarrow> Inl e
                     | Inr b \<Rightarrow> scan_scales cv scr tpl (Some b) post)"
    using pkm takes by simp
  also have "\<dots> = (case unscaled_box cv tpl m (peak m) of Inl e \<Rightarrow> Inl e | Inr b \<Rightarrow> Inr (Some b))"
  proof (cases "unscaled_box cv tpl m (peak m)")
    case (Inl e)
    then show ?thesis by simp
  next
    case (Inr b)
    then have "conf b = fst (peak m)" by (rule unscaled_box_conf)
    with pkq le have "\<forall>t\<in>set post. scale_peak cv scr tpl t = Inr (peak t) \<and> fst (peak t) \<le> conf b"
      by simp
    from scan_scales_keeps [OF this] Inr show ?thesis by simp
  qed
  finally show ?thesis .
qed

text \<open>
  With pairwise distinct confidences the result is decided by the scale of the largest
  one, wherever it stands in the list.
\<close>

lemma scan_scales_distinct:
  assumes pks: "\<forall>s\<in>set ss. scale_peak cv scr tpl s = Inr (peak s)"
    and dist: "distinct (map (fst \<circ> peak) ss)"
    and m: "m \<in> set ss" "\<forall>t\<in>set ss. fst (peak t) \<le> fst (peak m)"
    and bxs: "\<forall>s\<in>set ss. s \<noteq> m \<longrightarrow> (\<exists>b. unscaled_box cv tpl s (peak s) = Inr b)"
  shows "scan_scales cv scr tpl None ss =
     (case unscaled_box cv tpl m (peak m) of Inl e \<Rightarrow> Inl e | Inr b \<Rightarrow> Inr (Some b))"
proof -
  from dist have d: "distinct ss" and inj: "inj_on (fst \<circ> peak) (set ss)"
    by (simp_all add: distinct_map)
  from m(1) obtain pre post where split: "ss = pre @ m # post" by (auto dest: split_list)
  with d have nm: "m \<notin> set pre" "m \<notin> set post" by auto
  have ne: "fst (peak t) \<noteq> fst (peak m)" if "t \<in> set ss" "t \<noteq> m" for t
  proof
    assume "fst (peak t) = fst (peak m)"
    then have "(fst \<circ> peak) t = (fst \<circ> peak) m" by simp
    from inj_onD [OF inj this that(1) m(1)] that(2) show False by simp
  qed
  have lt: "\<forall>t\<in>set pre. fst (peak t) < fst (peak m)"
  proof
    fix t assume t: "t \<in> set pre"
    with split nm have "t \<in> set ss" "t \<noteq> m" by auto
    with ne [of t] m(2) show "fst (peak t) < fst (peak m)" by force
  qed
  have le: "\<forall>t\<in>set post. fst (peak t) \<le> fst (peak m)" using m(2) split by simp
  have bp: "\<forall>s\<in>set pre. \<exists>b. unscaled_box cv tpl s (peak s) = Inr b"
    using bxs split nm by auto
  from scan_scales_top [OF pks split lt le bp] show ?thesis .
qed

text \<open>A scale at which the resize or the correlation raises makes every scan raise.\<close>

lemma scan_scales_raises:
  assumes "s \<in> set ss" "scale_peak cv scr tpl s = Inl e"
  shows "\<exists>e'. scan_scales cv scr tpl best ss = Inl e'"
  using assms
proof (induction ss arbitrary: best)
  case Nil
  then show ?case by simp
next
  case (Cons t ss)
  show ?case
  proof (cases "t = s")
    case True
    with Cons.prems(2) show ?thesis by simp
  next
    case False
    with Cons.prems have "s \<in> set ss" by simp
    from Cons.IH [OF this Cons.prems(2)] show ?thesis
      by (auto split: sum.splits)
  qed
qed

text \<open>The sizes of the 1080 by 2400 screen at the default scales.\<close>

lemma scaled_size_default:
  assumes "shape cv scr = (2400, 1080)"
  shows "scaled_size cv scr 1 = Inr (1080, 2400)"
    "scaled_size cv scr (fl (9 / 10)) = Inr (972, 2160)"
    "scaled_size cv scr (fl (11 / 10)) = Inr (1188, 2640)"
    "scaled_size cv scr (fl (8 / 10)) = Inr (864, 1920)"
    "scaled_size cv scr (fl (12 / 10)) = Inr (1296, 2880)"
  using assms px_09 px_11 px_08 px_12
  by (simp_all add: scaled_size_def int_of_product_value whole_px)

text \<open>The matcher in \<open>screen_env\<close>, on the 1080 by 2400 screen.\<close>

lemma screen_env_peak:
  "scale_peak screen_env (2400, 1080) (60, 100) 1 = Inr (9 / 10, (500, 1000))"
  "scale_peak screen_env (2400, 1080) (60, 100) 2 = Inr (1 / 2, (1000, 2000))"
  "scale_peak screen_env (2400, 1080) (1, 1) 0 = Inr (1, (0, 0))"
  by (simp_all add: scale_peak_def scaled_frame_def scaled_size_def whole_px screen_env_def)

lemma screen_env_box:
  "unscaled_box screen_env (60, 100) 1 (9 / 10, (500, 1000)) = Inr (500, 1000, 100, 60, 9 / 10)"
  "unscaled_box screen_env (60, 100) 2 (1 / 2, (1000, 2000)) = Inr (500, 1000, 50, 30, 1 / 2)"
  "unscaled_box screen_env (1, 1) 0 (1, (0, 0)) = Inl ZeroDivisionError"
  by (simp_all add: unscaled_box_def whole_box int_of_quotient_zero screen_env_def)

lemma screen_env_scales:
  "\<forall>s\<in>set [1, 2]. scale_peak screen_env (2400, 1080) (60, 100) s = Inr (screen_peak s)"
  "\<forall>s\<in>set [1, 2]. unscaled_box screen_env (60, 100) s (screen_peak s) = Inr (screen_box s)"
  by (simp_all add: screen_env_peak screen_env_box screen_peak_def screen_box_def)

lemma screen_env_runs:
  "match_template screen_env (2400, 1080) (60, 100) (1 / 2) [1, 2]
     = Inr (Some (500, 1000, 100, 60, 9 / 10))"
  "match_template screen_env (2400, 1080) (60, 100) (1 / 2) [2, 1]
     = Inr (Some (500, 1000, 100, 60, 9 / 10))"
  "match_template screen_env (2400, 1080) (1, 1) (1 / 2) [0] = Inl ZeroDivisionError"
  by (simp_all add: match_template_def screen_env_peak screen_env_box conf_def)

text \<open>
  Claim C3, as amended: for every frame, template and threshold, and every non-empty
  list of scales each of which the loop can process, \<open>match_template\<close> returns a
  match exactly when the largest confidence over the scales reaches the threshold; the
  match returned carries that confidence, and otherwise the result is \<open>None\<close>.
  A scale can be processed when the size of the resized frame is finite, OpenCV accepts
  the resize and the correlation (which gives the peak \<open>peak s\<close>), and the peak
  converts back to the coordinates of the frame: the scale is not zero and no quotient
  overflows.
\<close>

theorem match_template_best_confidence:
  assumes "scales \<noteq> []"
    and "\<forall>s\<in>set scales. scale_peak cv scr tpl s = Inr (peak s)"
    and "\<forall>s\<in>set scales. \<exists>b. unscaled_box cv tpl s (peak s) = Inr b"
  shows "\<exists>r. match_template cv scr tpl thr scales = Inr r \<and>
     (case r of
        Some b \<Rightarrow> conf b = Max ((fst \<circ> peak) ` set scales) \<and> thr \<le> conf b
      | None \<Rightarrow> Max ((fst \<circ> peak) ` set scales) < thr)"
proof -
  from bchoice [OF assms(3)] obtain box where
    box: "\<forall>s\<in>set scales. unscaled_box cv tpl s (peak s) = Inr (box s)" ..
  from scan_scales_first_best [OF assms(1,2) box] obtain pre s post where
    s: "scales = pre @ s # post" "scan_scales cv scr tpl None scales = Inr (Some (box s))"
       "\<forall>t\<in>set pre. fst (peak t) < fst (peak s)" "\<forall>t\<in>set post. fst (peak t) \<le> fst (peak s)"
    by blast
  from s(1) box have "unscaled_box cv tpl s (peak s) = Inr (box s)" by simp
  then have cb: "conf (box s) = fst (peak s)" by (rule unscaled_box_conf)
  have "Max ((fst \<circ> peak) ` set scales) = fst (peak s)"
  proof (rule Max_eqI)
    show "finite ((fst \<circ> peak) ` set scales)" by simp
    show "\<And>y. y \<in> (fst \<circ> peak) ` set scales \<Longrightarrow> y \<le> fst (peak s)"
      using s(1,3,4) by (auto simp: less_imp_le)
    show "fst (peak s) \<in> (fst \<circ> peak) ` set scales" using s(1) by simp
  qed
  with s(2) cb show ?thesis by (cases "thr \<le> conf (box s)") (auto simp: match_template_def)
qed

theorem match_template_best_confidence_witness:
  "[1, 2] \<noteq> ([] :: pyfloat list) \<and>
   scale_peak screen_env (2400, 1080) (60, 100) 1 = Inr (screen_peak 1) \<and>
   scale_peak screen_env (2400, 1080) (60, 100) 2 = Inr (screen_peak 2) \<and>
   unscaled_box screen_env (60, 100) 1 (screen_peak 1) = Inr (screen_box 1) \<and>
   unscaled_box screen_env (60, 100) 2 (screen_peak 2) = Inr (screen_box 2) \<and>
   (\<exists>r. match_template screen_env (2400, 1080) (60, 100) (1 / 2) [1, 2] = Inr r \<and>
     (case r of
        Some b \<Rightarrow> conf b = Max ((fst \<circ> screen_peak) ` set [1, 2]) \<and> 1 / 2 \<le> conf b
      | None \<Rightarrow> Max ((fst \<circ> screen_peak) ` set [1, 2]) < 1 / 2))"
proof -
  have ne: "[1, 2] \<noteq> ([] :: pyfloat list)" by simp
  note pk = screen_env_scales(1)
  from screen_env_scales(2)
  have bx: "\<forall>s\<in>set [1, 2]. \<exists>b. unscaled_box screen_env (60, 100) s (screen_peak s) = Inr b"
    by blast
  have each: "scale_peak screen_env (2400, 1080) (60, 100) 1 = Inr (screen_peak 1)"
    "scale_peak screen_env (2400, 1080) (60, 100) 2 = Inr (screen_peak 2)"
    "unscaled_box screen_env (60, 100) 1 (screen_peak 1) = Inr (screen_box 1)"
    "unscaled_box screen_env (60, 100) 2 (screen_peak 2) = Inr (screen_box 2)"
    using screen_env_scales by simp_all
  from match_template_best_confidence [OF ne pk bx, of "1 / 2"] ne each show ?thesis
    by (intro conjI)
qed

text \<open>
  Claim C3 as stated covers every non-empty scale list. With the single scale \<open>0.0\<close>
  the frame is resized to one pixel, a template of one pixel is found in it at
  \<open>(0, 0)\<close>, and the conversion \<open>int(x / s)\<close> raises \<open>ZeroDivisionError\<close>: the
  call returns neither a match nor \<open>None\<close>.
\<close>

theorem match_template_zero_scale_raises:
  "[0] \<noteq> ([] :: pyfloat list) \<and>
   match_template screen_env (2400, 1080) (1, 1) (1 / 2) [0] = Inl ZeroDivisionError"
  by (simp add: screen_env_runs)

text \<open>
  Claim C6: the order of the scales decides the result only between equal confidences,
  where the first-seen maximum wins. Let \<open>peak s\<close> be the peak the loop finds at each
  scale of the list. First, when every peak converts back, to the tuple \<open>box s\<close>, the
  result is that of the first scale of the largest confidence: every scale before it has
  a strictly smaller confidence and no scale after it a larger one, and the call returns
  its tuple if its confidence reaches the threshold and \<open>None\<close> otherwise. Second,
  when the confidences are pairwise distinct, every permutation of the list gives the
  identical result. The second part asks only the scales below the largest confidence
  to convert back: if the scale of the largest confidence does not, every order raises
  the same exception.
\<close>

theorem match_template_scale_order:
  assumes "\<forall>s\<in>set scales. scale_peak cv scr tpl s = Inr (peak s)"
  shows "(scales \<noteq> [] \<and> (\<forall>s\<in>set scales. unscaled_box cv tpl s (peak s) = Inr (box s)) \<longrightarrow>
           (\<exists>pre s post. scales = pre @ s # post \<and>
              (\<forall>t\<in>set pre. fst (peak t) < fst (peak s)) \<and>
              (\<forall>t\<in>set post. fst (peak t) \<le> fst (peak s)) \<and>
              match_template cv scr tpl thr scales
                = Inr (if thr \<le> fst (peak s) then Some (box s) else None)))
       \<and> (mset scales' = mset scales \<and> distinct (map (fst \<circ> peak) scales) \<and>
            (\<forall>s\<in>set scales. (\<exists>b. unscaled_box cv tpl s (peak s) = Inr b)
                \<or> (\<forall>t\<in>set scales. fst (peak t) \<le> fst (peak s))) \<longrightarrow>
            match_template cv scr tpl thr scales' = match_template cv scr tpl thr scales)"
proof (intro conjI impI)
  assume a: "scales \<noteq> [] \<and> (\<forall>s\<in>set scales. unscaled_box cv tpl s (peak s) = Inr (box s))"
  then have ne: "scales \<noteq> []"
    and box: "\<forall>s\<in>set scales. unscaled_box cv tpl s (peak s) = Inr (box s)" by simp_all
  from scan_scales_first_best [OF ne assms box] obtain pre s post where
    s: "scales = pre @ s # post" "scan_scales cv scr tpl None scales = Inr (Some (box s))"
       "\<forall>t\<in>set pre. fst (peak t) < fst (peak s)" "\<forall>t\<in>set post. fst (peak t) \<le> fst (peak s)"
    by blast
  from s(1) box have "unscaled_box cv tpl s (peak s) = Inr (box s)" by simp
  then have cb: "conf (box s) = fst (peak s)" by (rule unscaled_box_conf)
  have "match_template cv scr tpl thr scales
          = Inr (if thr \<le> fst (peak s) then Some (box s) else None)"
    using s(2) cb by (simp add: match_template_def)
  with s(1,3,4) show "\<exists>pre s post. scales = pre @ s # post \<and>
              (\<forall>t\<in>set pre. fst (peak t) < fst (peak s)) \<and>
              (\<forall>t\<in>set post. fst (peak t) \<le> fst (peak s)) \<and>
              match_template cv scr tpl thr scales
                = Inr (if thr \<le> fst (peak s) then Some (box s) else None)"
    by blast
next
  assume a: "mset scales' = mset scales \<and> distinct (map (fst \<circ> peak) scales) \<and>
            (\<forall>s\<in>set scales. (\<exists>b. unscaled_box cv tpl s (peak s) = Inr b)
                \<or> (\<forall>t\<in>set scales. fst (peak t) \<le> fst (peak s)))"
  then have perm: "mset scales' = mset scales"
    and dist: "distinct (map (fst \<circ> peak) scales)"
    and conv: "\<forall>s\<in>set scales. (\<exists>b. unscaled_box cv tpl s (peak s) = Inr b)
                \<or> (\<forall>t\<in>set scales. fst (peak t) \<le> fst (peak s))" by simp_all
  show "match_template cv scr tpl thr scales' = match_template cv scr tpl thr scales"
  proof (cases "scales = []")
    case True
    with perm show "match_template cv scr tpl thr scales' = match_template cv scr tpl thr scales"
      by simp
  next
    case False
    have sets: "set scales' = set scales" using perm by (rule mset_eq_setD)
    have "mset (map (fst \<circ> peak) scales') = mset (map (fst \<circ> peak) scales)"
      using perm by simp
    with dist have dist': "distinct (map (fst \<circ> peak) scales')"
      by (metis distinct_count_atmost_1 set_mset_mset)
    have inj: "inj_on (fst \<circ> peak) (set scales)" using dist by (simp add: distinct_map)
    define c where "c = Max ((fst \<circ> peak) ` set scales)"
    have "c \<in> (fst \<circ> peak) ` set scales" unfolding c_def using False by (intro Max_in) simp_all
    then obtain m where m: "m \<in> set scales" "fst (peak m) = c" by auto
    have top: "\<forall>t\<in>set scales. fst (peak t) \<le> fst (peak m)"
      using m(2) by (simp add: c_def)
    have others: "\<forall>s\<in>set scales. s \<noteq> m \<longrightarrow> (\<exists>b. unscaled_box cv tpl s (peak s) = Inr b)"
    proof (intro ballI impI)
      fix s assume s: "s \<in> set scales" "s \<noteq> m"
      have "\<not> (\<forall>t\<in>set scales. fst (peak t) \<le> fst (peak s))"
      proof
        assume "\<forall>t\<in>set scales. fst (peak t) \<le> fst (peak s)"
        with m(1) top s(1) have "(fst \<circ> peak) s = (fst \<circ> peak) m" by force
        from inj_onD [OF inj this s(1) m(1)] s(2) show False by simp
      qed
      with conv s(1) show "\<exists>b. unscaled_box cv tpl s (peak s) = Inr b" by blast
    qed
    have "scan_scales cv scr tpl None scales' = scan_scales cv scr tpl None scales"
      using scan_scales_distinct [OF assms dist m(1) top others]
        scan_scales_distinct [of scales' cv scr tpl peak m] assms dist' m(1) top others sets
      by simp
    then show "match_template cv scr tpl thr scales' = match_template cv scr tpl thr scales"
      by (simp add: match_template_def)
  qed
qed

theorem match_template_scale_order_witness:
  "scale_peak screen_env (2400, 1080) (60, 100) 1 = Inr (screen_peak 1) \<and>
   scale_peak screen_env (2400, 1080) (60, 100) 2 = Inr (screen_peak 2) \<and>
   [1, 2] \<noteq> ([] :: pyfloat list) \<and>
   unscaled_box screen_env (60, 100) 1 (screen_peak 1) = Inr (screen_box 1) \<and>
   unscaled_box screen_env (60, 100) 2 (screen_peak 2) = Inr (screen_box 2) \<and>
   mset [2, 1] = mset [1, 2 :: pyfloat] \<and>
   distinct (map (fst \<circ> screen_peak) [1, 2]) \<and>
   (\<exists>pre s post. [1, 2] = pre @ s # post \<and>
      (\<forall>t\<in>set pre. fst (screen_peak t) < fst (screen_peak s)) \<and>
      (\<forall>t\<in>set post. fst (screen_peak t) \<le> fst (screen_peak s)) \<and>
      match_template screen_env (2400, 1080) (60, 100) (1 / 2) [1, 2]
        = Inr (if 1 / 2 \<le> fst (screen_peak s) then Some (screen_box s) else None)) \<and>
   match_template screen_env (2400, 1080) (60, 100) (1 / 2) [1, 2]
     = Inr (Some (500, 1000, 100, 60, 9 / 10)) \<and>
   match_template screen_env (2400, 1080) (60, 100) (1 / 2) [2, 1]
     = match_template screen_env (2400, 1080) (60, 100) (1 / 2) [1, 2]"
proof -
  note pk = screen_env_scales(1) and bx = screen_env_scales(2)
  have each: "scale_peak screen_env (2400, 1080) (60, 100) 1 = Inr (screen_peak 1)"
    "scale_peak screen_env (2400, 1080) (60, 100) 2 = Inr (screen_peak 2)"
    "unscaled_box screen_env (60, 100) 1 (screen_peak 1) = Inr (screen_box 1)"
    "unscaled_box screen_env (60, 100) 2 (screen_peak 2) = Inr (screen_box 2)"
    using screen_env_scales by simp_all
  have ne: "[1, 2] \<noteq> ([] :: pyfloat list)" by simp
  have p: "mset [2, 1] = mset [1, 2 :: pyfloat]" by (simp add: add_mset_commute)
  have d: "distinct (map (fst \<circ> screen_peak) [1, 2])" by (simp add: screen_peak_def)
  from bx have cv: "\<forall>s\<in>set [1, 2].
      (\<exists>b. unscaled_box screen_env (60, 100) s (screen_peak s) = Inr b)
      \<or> (\<forall>t\<in>set [1, 2]. fst (screen_peak t) \<le> fst (screen_peak s))"
    by blast
  note inst = match_template_scale_order [OF pk, of screen_box "1 / 2" "[2, 1]"]
  from inst ne bx have first: "\<exists>pre s post. [1, 2] = pre @ s # post \<and>
      (\<forall>t\<in>set pre. fst (screen_peak t) < fst (screen_peak s)) \<and>
      (\<forall>t\<in>set post. fst (screen_peak t) \<le> fst (screen_peak s)) \<and>
      match_template screen_env (2400, 1080) (60, 100) (1 / 2) [1, 2]
        = Inr (if 1 / 2 \<le> fst (screen_peak s) then Some (screen_box s) else None)"
    by blast
  from inst p d cv have order: "match_template screen_env (2400, 1080) (60, 100) (1 / 2) [2, 1]
     = match_template screen_env (2400, 1080) (60, 100) (1 / 2) [1, 2]"
    by blast
  from each(1,2) ne each(3,4) p d first screen_env_runs(1) order show ?thesis by (intro conjI)
qed

text \<open>
  Claim C10: with an empty sequence of scales \<open>match_template\<close> returns \<open>None\<close>,
  for every frame, template and threshold.
\<close>

theorem match_template_no_scales: "match_template cv scr tpl thr [] = Inr None"
  by (simp add: match_template_def)

section \<open>Action Driver: coordinates\<close>

text \<open>
  Claim C8: for a frame 1080 wide and 2400 high and the swipe with start
  \<open>(0.85, 0.50)\<close> and end \<open>(0.20, 0.50)\<close>, the absolute points are
  \<open>(918, 1200)\<close> and \<open>(216, 1200)\<close>.
\<close>

theorem abs_points_scenario:
  assumes "shape cv frame = (2400, 1080)"
  shows "abs_points_from_swipe cv frame
           \<lparr>start = (fl (85 / 100), fl (50 / 100)), end' = (fl (20 / 100), fl (50 / 100)),
            duration_ms = d\<rparr> = (918, 1200, 216, 1200)"
  using assms px_085 px_050 px_020 by (simp add: abs_points_from_swipe_def)

theorem abs_points_scenario_witness:
  "shape (toy_env 0 0) (2400, 1080) = (2400, 1080) \<and>
   abs_points_from_swipe (toy_env 0 0) (2400, 1080)
      \<lparr>start = (fl (85 / 100), fl (50 / 100)), end' = (fl (20 / 100), fl (50 / 100)),
       duration_ms = 280\<rparr> = (918, 1200, 216, 1200)"
proof -
  have h: "shape (toy_env 0 0) (2400, 1080) = (2400, 1080)" by (simp add: toy_env_def)
  from abs_points_scenario [OF h] h show ?thesis by blast
qed

section \<open>Locator Resolver\<close>

text \<open>
  Claim C2: when the bytes of a pulled frame do not decode, \<open>_next_frame\<close> skips the
  frame and goes on with the next one. The code does not: \<open>decode_png\<close> raises
  \<open>RuntimeError\<close> and \<open>_next_frame\<close> has no handler, so the exception reaches the
  caller with the second record still unread.
\<close>

theorem next_frame_raises_on_undecodable_frame:
  "next_frame blind_env \<lparr>clock = 0, stream = padded_record @ padded_record, sent = []\<rparr>
     = Some (Inl RuntimeError, \<lparr>clock = 0, stream = padded_record, sent = []\<rparr>)"
  by (subst next_frame.simps)
     (simp add: pull_def next_png_padded_record decode_png_def blind_env_def)

text \<open>
  Whenever \<open>_next_frame\<close> returns or raises, it has sent nothing and has taken at
  least one byte off the stream.
\<close>

lemma next_frame_returns_aux:
  assumes "next_frame cv w = Some y"
  shows "sent (snd y) = sent w \<and>
        (\<exists>n. 0 < n \<and> n \<le> length (stream w) \<and> stream (snd y) = drop n (stream w))"
proof (rule next_frame.raw_induct [where P = "\<lambda>cv w y. sent (snd y) = sent w \<and>
        (\<exists>n. 0 < n \<and> n \<le> length (stream w) \<and> stream (snd y) = drop n (stream w))", OF _ assms])
  fix nf :: "'a env \<Rightarrow> world \<Rightarrow> ('a outcome \<times> world) option" and cv w y
  assume IH: "\<And>cv w y. nf cv w = Some y \<Longrightarrow> sent (snd y) = sent w \<and>
        (\<exists>n. 0 < n \<and> n \<le> length (stream w) \<and> stream (snd y) = drop n (stream w))"
    and body: "(case pull cv w of (None, w1) \<Rightarrow> nf cv w1
      | (Some png, w1) \<Rightarrow>
          case decode_png cv png of Inl e \<Rightarrow> Some (Inl e, w1)
          | Inr img \<Rightarrow> Some (Inr img, w1)) = Some y"
  obtain png w1 where p: "pull cv w = (png, w1)" by force
  then have np: "next_png (stream w) = (png, stream w1)" and s1: "sent w1 = sent w"
    by (auto simp: pull_def split: prod.splits)
  show "sent (snd y) = sent w \<and>
        (\<exists>n. 0 < n \<and> n \<le> length (stream w) \<and> stream (snd y) = drop n (stream w))"
  proof (cases png)
    case None
    with body p have "nf cv w1 = Some y" by simp
    from IH [OF this] obtain n where
      n: "sent (snd y) = sent w1" "0 < n" "n \<le> length (stream w1)"
         "stream (snd y) = drop n (stream w1)"
      by blast
    from next_png_drop [OF np] obtain m where m: "stream w1 = drop m (stream w)" ..
    with n have "0 < n + m \<and> n + m \<le> length (stream w)
        \<and> stream (snd y) = drop (n + m) (stream w)"
      by auto
    with n(1) s1 show ?thesis by metis
  next
    case (Some b)
    with body p have "snd y = w1" by (auto split: sum.splits)
    with next_png_Some_consumes [of "stream w" b "stream w1"] np Some s1 show ?thesis by simp
  qed
qed

lemma next_frame_returns:
  assumes "next_frame cv w = Some (r, w1)"
  shows "sent w1 = sent w
         \<and> (\<exists>n. 0 < n \<and> n \<le> length (stream w) \<and> stream w1 = drop n (stream w))"
  using next_frame_returns_aux [OF assms] by simp

text \<open>On an exhausted stream every pull is an empty read: the loop never ends.\<close>

lemma next_frame_exhausted: "stream w = [] \<Longrightarrow> next_frame cv w = None"
proof (rule ccontr)
  assume e: "stream w = []" and "next_frame cv w \<noteq> None"
  then obtain r w1 where "next_frame cv w = Some (r, w1)" by auto
  from next_frame_returns [OF this] e show False by auto
qed

lemma next_frame_ready:
  assumes "next_png (stream w) = (Some png, s')" "imdecode cv png = Some img"
  shows "next_frame cv w = Some (Inr img, w\<lparr>clock := clock w + pull_secs cv, stream := s'\<rparr>)"
  using assms by (subst next_frame.simps) (simp add: pull_def decode_png_def)

lemma sleep_sent: "sleep d w = (r, w') \<Longrightarrow> sent w' = sent w"
  by (auto simp: sleep_def split: if_splits)

lemma wait_loop_sent:
  assumes "wait_loop cv cfg loc t0 timeout poll w = Some y"
  shows "sent (snd y) = sent w"
proof (rule wait_loop.raw_induct [where P = "\<lambda>cv cfg loc t0 timeout poll w y. sent (snd y) = sent w",
      OF _ assms])
  fix wl :: "'a env \<Rightarrow> UiPack \<Rightarrow> Locator \<Rightarrow> rat \<Rightarrow> rat \<Rightarrow> rat \<Rightarrow> world
     \<Rightarrow> ((bbox \<times> 'a) option outcome \<times> world) option"
    and cv cfg loc t0 timeout poll w y
  assume IH: "\<And>cv cfg loc t0 timeout poll w y.
      wl cv cfg loc t0 timeout poll w = Some y \<Longrightarrow> sent (snd y) = sent w"
    and body: "(if clock w - t0 < timeout
      then case next_frame cv w of None \<Rightarrow> None
           | Some (Inl e, w1) \<Rightarrow> Some (Inl e, w1)
           | Some (Inr frame, w1) \<Rightarrow>
               case timed_find cv cfg loc frame w1 of
               (Inl e, w2) \<Rightarrow> Some (Inl e, w2)
               | (Inr None, w2) \<Rightarrow>
                   case sleep poll w2 of (Inl e, w3) \<Rightarrow> Some (Inl e, w3)
                   | (Inr u, w3) \<Rightarrow> wl cv cfg loc t0 timeout poll w3
               | (Inr (Some hit), w2) \<Rightarrow> Some (Inr (Some (hit, frame)), w2)
      else Some (Inr None, w)) = Some y"
  show "sent (snd y) = sent w"
  proof (cases "clock w - t0 < timeout")
    case False
    with body show ?thesis by auto
  next
    case True
    with body obtain r w1 where nf: "next_frame cv w = Some (r, w1)"
      by (cases "next_frame cv w") auto
    from next_frame_returns [OF nf] have s1: "sent w1 = sent w" by simp
    show ?thesis
    proof (cases r)
      case (Inl e)
      with body True nf s1 show ?thesis by auto
    next
      case (Inr frame)
      obtain fr w2 where tf: "timed_find cv cfg loc frame w1 = (fr, w2)" by force
      then have s2: "sent w2 = sent w1" by (auto simp: timed_find_def)
      obtain sr w3 where sl: "sleep poll w2 = (sr, w3)" by force
      from sleep_sent [OF sl] have s3: "sent w3 = sent w2" .
      show ?thesis
      proof (cases "fr = Inr None \<and> (\<exists>u. sr = Inr u)")
        case True
        with body \<open>clock w - t0 < timeout\<close> nf Inr tf sl
        have "wl cv cfg loc t0 timeout poll w3 = Some y" by auto
        from IH [OF this] s1 s2 s3 show ?thesis by simp
      next
        case False
        with body \<open>clock w - t0 < timeout\<close> nf Inr tf sl s1 s2 s3 show ?thesis
          by (auto split: sum.splits option.splits)
      qed
    qed
  qed
qed

lemma wait_and_find_sent:
  "wait_and_find cv cfg loc timeout poll w = Some (r, w') \<Longrightarrow> sent w' = sent w"
  using wait_loop_sent [of cv cfg loc "clock w" timeout poll w "(r, w')"]
  by (simp add: wait_and_find_def)

text \<open>The functions in \<open>toy_env\<close>, on the stream \<open>three_frames\<close>.\<close>

lemma toy_env_sel:
  "imdecode (toy_env c secs) b = Some (2400, 1080)"
  "pull_secs (toy_env c secs) = secs"
  "match_secs (toy_env c secs) = 0"
  "shape (toy_env c secs) i = i"
  by (simp_all add: toy_env_def)

lemma next_frame_padded:
  assumes "imdecode cv padded_record = Some img"
  shows "next_frame cv \<lparr>clock = t, stream = padded_record @ s, sent = sh\<rparr>
           = Some (Inr img, \<lparr>clock = t + pull_secs cv, stream = s, sent = sh\<rparr>)"
  using assms
  by (subst next_frame.simps) (simp add: pull_def next_png_padded_record decode_png_def)

lemma next_frame_toy:
  "next_frame (toy_env c secs) three_frames = Some (Inr (2400, 1080), two_left secs)"
  unfolding three_frames_def two_left_def
  by (simp add: next_frame_padded [OF toy_env_sel(1)] toy_env_sel)

lemma find_locator_toy_hit:
  "find_locator (toy_env (9 / 10) secs) cfg demo_loc (2400, 1080)
     = Inr (Some (500, 1000, 100, 60, 9 / 10))"
  using default_thresh_value scaled_size_default [OF toy_env_sel(4), of "9 / 10" secs]
  by (simp add: find_locator_def load_template_def toy_env_def match_template_def
      default_scales_def scale_peak_def scaled_frame_def unscaled_box_def whole_box
      conf_def demo_loc_def)

lemma find_locator_toy_miss:
  "find_locator (toy_env (1 / 10) secs) cfg demo_loc (2400, 1080) = Inr None"
  using default_thresh_value scaled_size_default [OF toy_env_sel(4), of "1 / 10" secs]
  by (simp add: find_locator_def load_template_def toy_env_def match_template_def
      default_scales_def scale_peak_def scaled_frame_def unscaled_box_def whole_box
      conf_def demo_loc_def)

lemma steady_frames_toy:
  "steady_frames (toy_env (1 / 10) secs) cfg demo_loc (Suc 0) (stream three_frames)"
  by (simp add: three_frames_def next_png_padded_record toy_env_sel find_locator_toy_miss)

lemma wait_and_find_toy_hit:
  "wait_and_find (toy_env (9 / 10) 0) (default_pack ''./assets'') demo_loc 3 default_poll three_frames
   = Some (Inr (Some ((500, 1000, 100, 60, 9 / 10), (2400, 1080))), two_left 0)"
proof -
  have c0: "clock three_frames = 0" by (simp add: three_frames_def)
  show ?thesis
    unfolding wait_and_find_def
    by (subst wait_loop.simps)
       (simp add: c0 next_frame_toy timed_find_def find_locator_toy_hit toy_env_sel two_left_def)
qed

lemma wait_and_find_toy_miss:
  "wait_and_find (toy_env (1 / 10) 4) (default_pack ''./assets'') demo_loc 3 default_poll three_frames
   = Some (Inr None, two_left (103 / 25))"
proof -
  have c0: "clock three_frames = 0" by (simp add: three_frames_def)
  have step: "wait_loop (toy_env (1 / 10) 4) (default_pack ''./assets'') demo_loc 0 3 default_poll
        three_frames
    = wait_loop (toy_env (1 / 10) 4) (default_pack ''./assets'') demo_loc 0 3 default_poll
        (two_left (103 / 25))"
    by (subst wait_loop.simps)
       (simp add: c0 next_frame_toy timed_find_def find_locator_toy_miss toy_env_sel two_left_def
          sleep_def default_poll_def)
  have stop: "wait_loop (toy_env (1 / 10) 4) (default_pack ''./assets'') demo_loc 0 3 default_poll
        (two_left (103 / 25))
    = Some (Inr None, two_left (103 / 25))"
    by (subst wait_loop.simps) (simp add: two_left_def)
  show ?thesis unfolding wait_and_find_def c0 step stop ..
qed

text \<open>
  With frames at hand, each turn of the loop moves the clock by the time of one pull,
  one match and one sleep, and the loop leaves at the first test at or after the timeout.
\<close>

lemma wait_loop_steady:
  assumes poll: "0 \<le> poll" and d: "0 < pull_secs cv + match_secs cv + poll"
  shows "steady_frames cv cfg loc n (stream w) \<Longrightarrow>
         timeout - (clock w - t0) \<le> of_nat n * (pull_secs cv + match_secs cv + poll) \<Longrightarrow>
         \<exists>w'. wait_loop cv cfg loc t0 timeout poll w = Some (Inr None, w') \<and>
              sent w' = sent w \<and> clock w \<le> clock w' \<and>
              (clock w' = clock w \<or> clock w' - t0 < timeout + (pull_secs cv + match_secs cv + poll))"
proof (induction n arbitrary: w)
  case 0
  then have "\<not> clock w - t0 < timeout" by simp
  then show ?case by (subst wait_loop.simps) simp
next
  case (Suc n)
  let ?d = "pull_secs cv + match_secs cv + poll"
  show ?case
  proof (cases "clock w - t0 < timeout")
    case False
    then show ?thesis by (subst wait_loop.simps) simp
  next
    case True
    from Suc.prems(1) obtain png s' img where
      np: "next_png (stream w) = (Some png, s')" and dec: "imdecode cv png = Some img"
      and miss: "find_locator cv cfg loc img = Inr None" and rest: "steady_frames cv cfg loc n s'"
      by (auto split: prod.splits option.splits)
    define w3 where "w3 = w\<lparr>stream := s', clock := clock w + ?d\<rparr>"
    have step: "wait_loop cv cfg loc t0 timeout poll w = wait_loop cv cfg loc t0 timeout poll w3"
      using True poll miss
      by (subst wait_loop.simps)
         (simp add: next_frame_ready [OF np dec] timed_find_def sleep_def w3_def add.assoc)
    have "steady_frames cv cfg loc n (stream w3)" using rest by (simp add: w3_def)
    moreover have "timeout - (clock w3 - t0) \<le> of_nat n * ?d"
      using Suc.prems(2) by (simp add: w3_def algebra_simps)
    ultimately obtain w' where
      w': "wait_loop cv cfg loc t0 timeout poll w3 = Some (Inr None, w')" "sent w' = sent w3"
          "clock w3 \<le> clock w'" "clock w' = clock w3 \<or> clock w' - t0 < timeout + ?d"
      using Suc.IH [of w3] by blast
    have "clock w3 - t0 < timeout + ?d" using True by (simp add: w3_def)
    with w' step d show ?thesis by (auto simp: w3_def)
  qed
qed

text \<open>
  Claim C5, as amended: let the poll interval be non-negative, let one attempt (a pull,
  a match and the sleep) take a positive time, and let the source deliver, for as many
  pulls as fit into the timeout, decodable frames in which the locator is not found.
  Then \<open>wait_and_find\<close> returns \<open>(None, None)\<close> without raising and without sending
  any command, and the time it has taken is below the timeout (or zero, if that is
  larger) plus one poll interval plus the time of one pull and one match.
\<close>

theorem wait_and_find_timeout_bound:
  assumes "0 \<le> poll" and "0 < pull_secs cv + match_secs cv + poll"
    and "steady_frames cv cfg loc n (stream w)"
    and "timeout \<le> of_nat n * (pull_secs cv + match_secs cv + poll)"
  shows "\<exists>w'. wait_and_find cv cfg loc timeout poll w = Some (Inr None, w') \<and> sent w' = sent w \<and>
           clock w' - clock w < max 0 timeout + poll + pull_secs cv + match_secs cv"
proof -
  from wait_loop_steady [OF assms(1,2,3), of timeout "clock w"] assms(4)
  obtain w' where
    w': "wait_loop cv cfg loc (clock w) timeout poll w = Some (Inr None, w')" "sent w' = sent w"
        "clock w' = clock w \<or> clock w' - clock w < timeout + (pull_secs cv + match_secs cv + poll)"
    by auto
  with assms(2) show ?thesis by (auto simp: wait_and_find_def max_def)
qed

theorem wait_and_find_timeout_bound_witness:
  "0 \<le> default_poll \<and>
   0 < pull_secs (toy_env (1 / 10) 4) + match_secs (toy_env (1 / 10) 4) + default_poll \<and>
   steady_frames (toy_env (1 / 10) 4) (default_pack ''./assets'') demo_loc (Suc 0) (stream three_frames) \<and>
   3 \<le> of_nat (Suc 0) * (pull_secs (toy_env (1 / 10) 4) + match_secs (toy_env (1 / 10) 4) + default_poll) \<and>
   (\<exists>w'. wait_and_find (toy_env (1 / 10) 4) (default_pack ''./assets'') demo_loc 3 default_poll three_frames
            = Some (Inr None, w') \<and> sent w' = sent three_frames \<and>
          clock w' - clock three_frames
            < max 0 3 + default_poll + pull_secs (toy_env (1 / 10) 4) + match_secs (toy_env (1 / 10) 4))"
proof -
  have h1: "0 \<le> default_poll" by (simp add: default_poll_def)
  have h2: "0 < pull_secs (toy_env (1 / 10) 4) + match_secs (toy_env (1 / 10) 4) + default_poll"
    by (simp add: toy_env_sel default_poll_def)
  note h3 = steady_frames_toy [of 4 "default_pack ''./assets''"]
  have h4: "3 \<le> of_nat (Suc 0)
      * (pull_secs (toy_env (1 / 10) 4) + match_secs (toy_env (1 / 10) 4) + default_poll)"
    by (simp add: toy_env_sel default_poll_def)
  from wait_and_find_timeout_bound [OF h1 h2 h3 h4] h1 h2 h3 h4 show ?thesis by blast
qed

text \<open>
  Claim C5 as stated bounds the time by the timeout plus one poll interval. The loop
  tests the clock only between attempts, and the pull inside an attempt blocks for as
  long as the frame takes to arrive. With frames that take 4 seconds each, the default
  timeout of 3 seconds and the default poll interval, the call returns \<open>(None, None)\<close>
  after 4.12 seconds, past the claimed 3.12, while the source still holds frames.
\<close>

theorem wait_and_find_exceeds_claimed_bound:
  "steady_frames (toy_env (1 / 10) 4) (default_pack ''./assets'') demo_loc (Suc 0) (stream three_frames) \<and>
   wait_and_find (toy_env (1 / 10) 4) (default_pack ''./assets'') demo_loc 3 default_poll three_frames
     = Some (Inr None, two_left (103 / 25)) \<and>
   stream (two_left (103 / 25)) \<noteq> [] \<and>
   \<not> clock (two_left (103 / 25)) - clock three_frames \<le> 3 + default_poll"
proof -
  have c: "stream (two_left (103 / 25)) \<noteq> []"
    by (simp add: two_left_def padded_record_def PNG_SIG_def)
  have d: "\<not> clock (two_left (103 / 25)) - clock three_frames \<le> 3 + default_poll"
    by (simp add: two_left_def three_frames_def default_poll_def)
  from steady_frames_toy [of 4 "default_pack ''./assets''"] wait_and_find_toy_miss c d
  show ?thesis by (intro conjI)
qed

section \<open>Action Driver\<close>

text \<open>
  Claim C4: \<open>tap_locator\<close> resolves its locator with the fixed timeout of 3 seconds
  (and the default poll interval). On a hit with bounding box \<open>(x, y, w, h)\<close> it sends
  exactly one command, the tap at \<open>(x + w // 2, y + h // 2)\<close>, waits \<open>wait_after\<close>
  and returns \<open>True\<close>; on a miss it returns \<open>False\<close> and has sent nothing.
  \<open>wait_after\<close> is a duration, hence not negative.
\<close>

theorem tap_locator_taps_center:
  assumes "0 \<le> wait_after"
  shows "(wait_and_find cv cfg loc 3 default_poll w
            = Some (Inr (Some ((x, y, bw, bh, c), frame)), w1) \<longrightarrow>
            tap_locator cv cfg loc wait_after w =
              Some (Inr True, w1\<lparr>clock := clock w1 + wait_after,
                      sent := sent w @ [''input tap '' @ str_int (x + bw div 2) @ '' ''
                                @ str_int (y + bh div 2) @ [CHR 0x0A]]\<rparr>)) \<and>
         (wait_and_find cv cfg loc 3 default_poll w = Some (Inr None, w1) \<longrightarrow>
            tap_locator cv cfg loc wait_after w = Some (Inr False, w1) \<and> sent w1 = sent w)"
  using assms wait_and_find_sent [of cv cfg loc 3 default_poll w _ w1]
  by (auto simp: tap_locator_def center_of_def sleep_def tap_def send_def Let_def)

theorem tap_locator_taps_center_witness:
  "0 \<le> (1 / 2 :: rat) \<and>
   wait_and_find (toy_env (9 / 10) 0) (default_pack ''./assets'') demo_loc 3 default_poll three_frames
     = Some (Inr (Some ((500, 1000, 100, 60, 9 / 10), (2400, 1080))), two_left 0) \<and>
   tap_locator (toy_env (9 / 10) 0) (default_pack ''./assets'') demo_loc (1 / 2) three_frames
     = Some (Inr True, \<lparr>clock = 1 / 2, stream = padded_record @ padded_record,
                        sent = [''input tap 550 1030'' @ [CHR 0x0A]]\<rparr>) \<and>
   wait_and_find (toy_env (1 / 10) 4) (default_pack ''./assets'') demo_loc 3 default_poll three_frames
     = Some (Inr None, two_left (103 / 25)) \<and>
   tap_locator (toy_env (1 / 10) 4) (default_pack ''./assets'') demo_loc (1 / 2) three_frames
     = Some (Inr False, two_left (103 / 25))"
proof -
  have h: "0 \<le> (1 / 2 :: rat)" by simp
  have s0: "sent three_frames = []" by (simp add: three_frames_def)
  from tap_locator_taps_center [OF h, of "toy_env (9 / 10) 0" "default_pack ''./assets''" demo_loc
      three_frames 500 1000 100 60 "9 / 10" "(2400, 1080)" "two_left 0"]
    wait_and_find_toy_hit
  have a: "tap_locator (toy_env (9 / 10) 0) (default_pack ''./assets'') demo_loc (1 / 2) three_frames
     = Some (Inr True, \<lparr>clock = 1 / 2, stream = padded_record @ padded_record,
                        sent = [''input tap 550 1030'' @ [CHR 0x0A]]\<rparr>)"
    by (simp add: two_left_def s0 str_int_values)
  from tap_locator_taps_center [OF h, of "toy_env (1 / 10) 4" "default_pack ''./assets''" demo_loc
      three_frames _ _ _ _ _ _ "two_left (103 / 25)"]
    wait_and_find_toy_miss
  have b: "tap_locator (toy_env (1 / 10) 4) (default_pack ''./assets'') demo_loc (1 / 2) three_frames
     = Some (Inr False, two_left (103 / 25))"
    by simp
  from h a b wait_and_find_toy_hit wait_and_find_toy_miss show ?thesis by simp
qed

text \<open>
  Claim C7, as amended: once \<open>_next_frame\<close> has delivered a frame, \<open>swipe_by_name\<close>
  raises \<open>KeyError\<close> if the name is not among the configured swipes, and for a
  configured name (and a non-negative \<open>wait_after\<close>) it raises nothing and sends
  exactly one swipe command, whose points are computed from the dimensions of that frame.
\<close>

theorem swipe_by_name_after_frame:
  assumes "next_frame cv w = Some (Inr frame, w1)" and "0 \<le> wait_after"
  shows "(swipes cfg k = None \<longrightarrow> swipe_by_name cv cfg k wait_after w = Some (Inl KeyError, w1)) \<and>
         (swipes cfg k = Some sw \<longrightarrow>
            (case abs_points_from_swipe cv frame sw of (sx, sy, ex, ey) \<Rightarrow>
               swipe_by_name cv cfg k wait_after w =
                 Some (Inr (), w1\<lparr>clock := clock w1 + wait_after,
                                  sent := sent w @ [''input swipe '' @ str_int sx @ '' '' @ str_int sy
                                    @ '' '' @ str_int ex @ '' '' @ str_int ey @ '' ''
                                    @ str_int (duration_ms sw) @ [CHR 0x0A]]\<rparr>)))"
  using assms next_frame_returns [OF assms(1)]
  by (auto simp: swipe_by_name_def sleep_def swipe_def send_def Let_def split: prod.splits)

theorem swipe_by_name_after_frame_witness:
  "next_frame (toy_env 0 0) three_frames = Some (Inr (2400, 1080), two_left 0) \<and>
   0 \<le> (0 :: rat) \<and>
   swipes (default_pack ''./assets'') ''scroll_up'' = None \<and>
   swipe_by_name (toy_env 0 0) (default_pack ''./assets'') ''scroll_up'' 0 three_frames
     = Some (Inl KeyError, two_left 0) \<and>
   swipe_by_name (toy_env 0 0) (default_pack ''./assets'') ''next_pokemon'' 0 three_frames
     = Some (Inr (), \<lparr>clock = 0, stream = padded_record @ padded_record,
                      sent = [''input swipe 918 1200 216 1200 280'' @ [CHR 0x0A]]\<rparr>)"
proof -
  note h1 = next_frame_toy [of 0 0]
  have h2: "0 \<le> (0 :: rat)" by simp
  have s0: "sent three_frames = []" by (simp add: three_frames_def)
  have u: "swipes (default_pack ''./assets'') ''scroll_up'' = None"
    by (simp add: default_pack_def)
  have pts: "abs_points_from_swipe (toy_env 0 0) (2400, 1080)
       \<lparr>start = (fl (85 / 100), fl (50 / 100)), end' = (fl (20 / 100), fl (50 / 100)),
        duration_ms = 280\<rparr> = (918, 1200, 216, 1200)"
    using px_085 px_050 px_020 by (simp add: abs_points_from_swipe_def toy_env_sel)
  from swipe_by_name_after_frame [OF h1 h2, of "default_pack ''./assets''" "''scroll_up''"] u
  have a: "swipe_by_name (toy_env 0 0) (default_pack ''./assets'') ''scroll_up'' 0 three_frames
     = Some (Inl KeyError, two_left 0)"
    by simp
  from swipe_by_name_after_frame [OF h1 h2, of "default_pack ''./assets''" "''next_pokemon''"
      "\<lparr>start = (fl (85 / 100), fl (50 / 100)), end' = (fl (20 / 100), fl (50 / 100)),
        duration_ms = 280\<rparr>"] pts
  have b: "swipe_by_name (toy_env 0 0) (default_pack ''./assets'') ''next_pokemon'' 0 three_frames
     = Some (Inr (), \<lparr>clock = 0, stream = padded_record @ padded_record,
                      sent = [''input swipe 918 1200 216 1200 280'' @ [CHR 0x0A]]\<rparr>)"
    by (simp add: default_pack_def two_left_def s0 str_int_values)
  from h1 h2 u a b show ?thesis by simp
qed

text \<open>
  Claim C7 as stated has \<open>swipe_by_name\<close> raise whenever the name is unknown. The
  frame is pulled before the name is looked up, and \<open>_next_frame\<close> waits for a frame
  for ever: on a stream that has ended the call with an unknown name raises nothing
  and never returns.
\<close>

theorem swipe_by_name_unknown_on_closed_stream:
  "swipes (default_pack ''./assets'') ''scroll_up'' = None \<and>
   swipe_by_name (toy_env 0 0) (default_pack ''./assets'') ''scroll_up'' 0 closed_stream = None"
  by (simp add: default_pack_def swipe_by_name_def next_frame_exhausted closed_stream_def)

text \<open>
  Claim C9: \<open>swipe_by_name\<close> pulls a frame before it looks the name up. Called with
  an unknown name, it raises \<open>KeyError\<close> in the state \<open>_next_frame\<close> has left:
  nothing has been sent, and the stream has moved on by at least one byte.
\<close>

theorem swipe_by_name_unknown_consumes_frame:
  assumes "swipes cfg k = None" and "next_frame cv w = Some (Inr frame, w1)"
  shows "swipe_by_name cv cfg k wait_after w = Some (Inl KeyError, w1) \<and> sent w1 = sent w \<and>
         (\<exists>n. 0 < n \<and> n \<le> length (stream w) \<and> stream w1 = drop n (stream w))"
  using assms next_frame_returns [OF assms(2)] by (simp add: swipe_by_name_def)

theorem swipe_by_name_unknown_consumes_frame_witness:
  "swipes (default_pack ''./assets'') ''scroll_up'' = None \<and>
   next_frame (toy_env 0 0) three_frames = Some (Inr (2400, 1080), two_left 0) \<and>
   swipe_by_name (toy_env 0 0) (default_pack ''./assets'') ''scroll_up'' 0 three_frames
     = Some (Inl KeyError, two_left 0) \<and>
   sent (two_left 0) = sent three_frames \<and>
   (\<exists>n. 0 < n \<and> n \<le> length (stream three_frames)
        \<and> stream (two_left 0) = drop n (stream three_frames))"
proof -
  have h1: "swipes (default_pack ''./assets'') ''scroll_up'' = None"
    by (simp add: default_pack_def)
  note h2 = next_frame_toy [of 0 0]
  from swipe_by_name_unknown_consumes_frame [OF h1 h2, of 0] h1 h2 show ?thesis by blast
qed

end
